theory Spec2Isabelle
  imports Main
begin

section \<open>Storage, element types and the environment\<close>

text \<open>
  The file \<^verbatim>\<open>advanced-vector/vector.h\<close> defines \<^verbatim>\<open>RawMemory<T>\<close>, an owner of
  uninitialised storage, and \<^verbatim>\<open>Vector<T>\<close>, which constructs and destroys objects of the
  element type \<^verbatim>\<open>T\<close> inside that storage. The element type \<^verbatim>\<open>T\<close> is the type variable
  \<open>'a\<close>; \<^verbatim>\<open>size_t\<close> is \<open>nat\<close> (a size is bounded by the memory that was allocated for
  it, so the arithmetic of the class never wraps).

  A slot of storage is either raw memory or holds a live object.
\<close>

datatype 'a cell = Raw | Live 'a

text \<open>
  What is known about the element type at compile time: the two type traits that
  \<^verbatim>\<open>if constexpr\<close> tests, whether move assignment is declared non-throwing, the value of
  \<^verbatim>\<open>T()\<close>, and the state a moved-from object is left in.
\<close>

record 'a traits =
  is_nothrow_move_constructible :: bool
  is_copy_constructible :: bool
  is_nothrow_move_assignable :: bool
  value_initialized :: 'a
  moved_from :: "'a \<Rightarrow> 'a"

text \<open>
  The operations on storage and on elements that a run performs, in order. They are
  recorded so that statements about which constructor relocated the elements, or about
  nothing having been done at all, can be made.
\<close>

datatype op = New nat | Delete
  | DefaultCtor | ArgsCtor | CopyCtor | MoveCtor | CopyAssign | MoveAssign | Dtor

text \<open>
  The environment of a run. \<open>plan\<close> decides the operations that can throw (\<^verbatim>\<open>operator new\<close>
  and the element's constructors and assignments that are not declared non-throwing):
  each such operation takes the next entry, and throws when it is \<open>True\<close>; when the plan
  is used up nothing throws any more. \<open>trace\<close> lists the operations that completed.
  \<open>leaked\<close> collects the objects whose lifetime ended without their destructor: those
  still live in a region when it is handed to \<^verbatim>\<open>operator delete\<close>, and those whose
  storage is reused by a placement \<^verbatim>\<open>new\<close>.
\<close>

record 'a world =
  plan :: "bool list"
  trace :: "op list"
  leaked :: "'a list"

text \<open>
  A call returns normally with a result and a state, leaves by an exception with a state,
  or does not come back: undefined behaviour (an access outside a region or outside an
  object's lifetime), a failed \<^verbatim>\<open>assert\<close>, or \<^verbatim>\<open>std::terminate\<close> when an exception
  reaches a \<^verbatim>\<open>noexcept\<close> boundary.
\<close>

datatype reason = UndefinedBehaviour | AssertionFailure | Terminate

datatype ('r, 's) outcome = Ok 'r 's | Thrown 's | Abort reason

definition attempt :: "bool \<Rightarrow> 'a world \<Rightarrow> bool \<times> 'a world" where
  "attempt may_throw w =
     (if may_throw
      then (case plan w of [] \<Rightarrow> (False, w) | b # bs \<Rightarrow> (b, w\<lparr>plan := bs\<rparr>))
      else (False, w))"

definition log_op :: "op \<Rightarrow> 'a world \<Rightarrow> 'a world" where
  "log_op k w = w\<lparr>trace := trace w @ [k]\<rparr>"

fun live_objects :: "'a cell list \<Rightarrow> 'a list" where
  "live_objects [] = []"
| "live_objects (Raw # cs) = live_objects cs"
| "live_objects (Live x # cs) = x # live_objects cs"

definition object_at :: "'a cell list \<Rightarrow> nat \<Rightarrow> 'a option" where
  "object_at cs i =
     (if i < length cs then (case cs ! i of Raw \<Rightarrow> None | Live x \<Rightarrow> Some x) else None)"

subsection \<open>Operations on one element\<close>

text \<open>
  Pointers into a region are offsets from its start; the region is the list of its cells.

  Placement \<^verbatim>\<open>new (p) T(...)\<close> with the constructor \<open>k\<close> producing the value \<open>x\<close>.
  Constructing over a live object ends that object's lifetime without its destructor.
\<close>

definition construct_at :: "op \<Rightarrow> bool \<Rightarrow> 'a \<Rightarrow> nat \<Rightarrow> 'a cell list \<Rightarrow> 'a world
    \<Rightarrow> (unit, 'a cell list \<times> 'a world) outcome" where
  "construct_at k may_throw x i cs w =
     (if length cs \<le> i then Abort UndefinedBehaviour
      else (case attempt may_throw w of
          (True, w') \<Rightarrow> Thrown (cs, w')
        | (False, w') \<Rightarrow>
            Ok () (cs[i := Live x],
              log_op k (case cs ! i of Raw \<Rightarrow> w' | Live y \<Rightarrow> w'\<lparr>leaked := leaked w' @ [y]\<rparr>))))"

text \<open>\<^verbatim>\<open>p->~T()\<close>: destructors do not throw.\<close>

definition destroy_at :: "nat \<Rightarrow> 'a cell list \<Rightarrow> 'a world
    \<Rightarrow> (unit, 'a cell list \<times> 'a world) outcome" where
  "destroy_at i cs w =
     (case object_at cs i of
        None \<Rightarrow> Abort UndefinedBehaviour
      | Some x \<Rightarrow> Ok () (cs[i := Raw], log_op Dtor w))"

text \<open>\<^verbatim>\<open>new (dst + i) T(src[j])\<close>: the copy constructor, from another region.\<close>

definition copy_construct_at :: "'a cell list \<Rightarrow> nat \<Rightarrow> nat \<Rightarrow> 'a cell list \<Rightarrow> 'a world
    \<Rightarrow> (unit, 'a cell list \<times> 'a world) outcome" where
  "copy_construct_at src j i dst w =
     (case object_at src j of
        None \<Rightarrow> Abort UndefinedBehaviour
      | Some x \<Rightarrow> construct_at CopyCtor True x i dst w)"

text \<open>
  \<^verbatim>\<open>new (dst + i) T(std::move(src[j]))\<close>: the move constructor, between two regions. It
  leaves the source object moved-from; a move constructor that throws is taken to leave
  its source as it was.
\<close>

definition move_construct_at :: "'a traits \<Rightarrow> 'a cell list \<Rightarrow> nat \<Rightarrow> nat \<Rightarrow> 'a cell list
    \<Rightarrow> 'a world \<Rightarrow> (unit, ('a cell list \<times> 'a cell list) \<times> 'a world) outcome" where
  "move_construct_at tr src j i dst w =
     (case object_at src j of
        None \<Rightarrow> Abort UndefinedBehaviour
      | Some x \<Rightarrow>
         (case construct_at MoveCtor (\<not> is_nothrow_move_constructible tr) x i dst w of
            Ok _ (dst', w') \<Rightarrow> Ok () ((src[j := Live (moved_from tr x)], dst'), w')
          | Thrown (dst', w') \<Rightarrow> Thrown ((src, dst'), w')
          | Abort r \<Rightarrow> Abort r))"

text \<open>The same inside one region: \<^verbatim>\<open>new (p + i) T(std::move(p[j]))\<close>.\<close>

definition move_construct_within :: "'a traits \<Rightarrow> nat \<Rightarrow> nat \<Rightarrow> 'a cell list \<Rightarrow> 'a world
    \<Rightarrow> (unit, 'a cell list \<times> 'a world) outcome" where
  "move_construct_within tr j i cs w =
     (case object_at cs j of
        None \<Rightarrow> Abort UndefinedBehaviour
      | Some x \<Rightarrow>
         (case construct_at MoveCtor (\<not> is_nothrow_move_constructible tr) x i cs w of
            Ok _ (cs', w') \<Rightarrow> Ok () (cs'[j := Live (moved_from tr x)], w')
          | Thrown s \<Rightarrow> Thrown s
          | Abort r \<Rightarrow> Abort r))"

text \<open>
  Assignment to the live object at \<open>i\<close> of the value \<open>x\<close> by the assignment operator \<open>k\<close>.
\<close>

definition assign_at :: "op \<Rightarrow> bool \<Rightarrow> 'a \<Rightarrow> nat \<Rightarrow> 'a cell list \<Rightarrow> 'a world
    \<Rightarrow> (unit, 'a cell list \<times> 'a world) outcome" where
  "assign_at k may_throw x i cs w =
     (case object_at cs i of
        None \<Rightarrow> Abort UndefinedBehaviour
      | Some y \<Rightarrow>
         (case attempt may_throw w of
            (True, w') \<Rightarrow> Thrown (cs, w')
          | (False, w') \<Rightarrow> Ok () (cs[i := Live x], log_op k w')))"

text \<open>\<^verbatim>\<open>p[i] = std::move(p[j])\<close> inside one region.\<close>

definition move_assign_within :: "'a traits \<Rightarrow> nat \<Rightarrow> nat \<Rightarrow> 'a cell list \<Rightarrow> 'a world
    \<Rightarrow> (unit, 'a cell list \<times> 'a world) outcome" where
  "move_assign_within tr j i cs w =
     (case object_at cs j of
        None \<Rightarrow> Abort UndefinedBehaviour
      | Some x \<Rightarrow>
         (case assign_at MoveAssign (\<not> is_nothrow_move_assignable tr) x i cs w of
            Ok _ (cs', w') \<Rightarrow> Ok () (cs'[j := Live (moved_from tr x)], w')
          | Thrown s \<Rightarrow> Thrown s
          | Abort r \<Rightarrow> Abort r))"

subsection \<open>The algorithms of the standard library that the class calls\<close>

text \<open>
  \<^verbatim>\<open>std::destroy_n(first, n)\<close>.
\<close>

fun destroy_n :: "nat \<Rightarrow> nat \<Rightarrow> 'a cell list \<Rightarrow> 'a world
    \<Rightarrow> (unit, 'a cell list \<times> 'a world) outcome" where
  "destroy_n first 0 cs w = Ok () (cs, w)"
| "destroy_n first (Suc n) cs w =
     (case destroy_at first cs w of
        Ok _ (cs', w') \<Rightarrow> destroy_n (Suc first) n cs' w'
      | Thrown s \<Rightarrow> Thrown s
      | Abort r \<Rightarrow> Abort r)"

text \<open>
  The three \<^verbatim>\<open>uninitialized_\<close> algorithms construct \<open>n\<close> objects in raw storage; when
  a constructor throws they destroy the objects they constructed so far and rethrow.
  \<open>i\<close> counts the objects constructed so far.
\<close>

fun uninitialized_value_construct_loop :: "'a traits \<Rightarrow> nat \<Rightarrow> nat \<Rightarrow> nat \<Rightarrow> 'a cell list
    \<Rightarrow> 'a world \<Rightarrow> (unit, 'a cell list \<times> 'a world) outcome" where
  "uninitialized_value_construct_loop tr first i 0 cs w = Ok () (cs, w)"
| "uninitialized_value_construct_loop tr first i (Suc n) cs w =
     (case construct_at DefaultCtor True (value_initialized tr) (first + i) cs w of
        Ok _ (cs', w') \<Rightarrow> uninitialized_value_construct_loop tr first (Suc i) n cs' w'
      | Thrown (cs', w') \<Rightarrow>
         (case destroy_n first i cs' w' of
            Ok _ s \<Rightarrow> Thrown s | Thrown s \<Rightarrow> Thrown s | Abort r \<Rightarrow> Abort r)
      | Abort r \<Rightarrow> Abort r)"

definition uninitialized_value_construct_n :: "'a traits \<Rightarrow> nat \<Rightarrow> nat \<Rightarrow> 'a cell list
    \<Rightarrow> 'a world \<Rightarrow> (unit, 'a cell list \<times> 'a world) outcome" where
  "uninitialized_value_construct_n tr first n cs w =
     uninitialized_value_construct_loop tr first 0 n cs w"

fun uninitialized_copy_loop :: "'a cell list \<Rightarrow> nat \<Rightarrow> nat \<Rightarrow> nat \<Rightarrow> nat \<Rightarrow> 'a cell list
    \<Rightarrow> 'a world \<Rightarrow> (unit, 'a cell list \<times> 'a world) outcome" where
  "uninitialized_copy_loop src first d_first i 0 dst w = Ok () (dst, w)"
| "uninitialized_copy_loop src first d_first i (Suc n) dst w =
     (case copy_construct_at src (first + i) (d_first + i) dst w of
        Ok _ (dst', w') \<Rightarrow> uninitialized_copy_loop src first d_first (Suc i) n dst' w'
      | Thrown (dst', w') \<Rightarrow>
         (case destroy_n d_first i dst' w' of
            Ok _ s \<Rightarrow> Thrown s | Thrown s \<Rightarrow> Thrown s | Abort r \<Rightarrow> Abort r)
      | Abort r \<Rightarrow> Abort r)"

text \<open>\<^verbatim>\<open>std::uninitialized_copy_n(src + first, n, dst + d_first)\<close>.\<close>

definition uninitialized_copy_n :: "'a cell list \<Rightarrow> nat \<Rightarrow> nat \<Rightarrow> nat \<Rightarrow> 'a cell list
    \<Rightarrow> 'a world \<Rightarrow> (unit, 'a cell list \<times> 'a world) outcome" where
  "uninitialized_copy_n src first n d_first dst w =
     uninitialized_copy_loop src first d_first 0 n dst w"

fun uninitialized_move_loop :: "'a traits \<Rightarrow> nat \<Rightarrow> nat \<Rightarrow> nat \<Rightarrow> nat
    \<Rightarrow> 'a cell list \<Rightarrow> 'a cell list \<Rightarrow> 'a world
    \<Rightarrow> (unit, ('a cell list \<times> 'a cell list) \<times> 'a world) outcome" where
  "uninitialized_move_loop tr first d_first i 0 src dst w = Ok () ((src, dst), w)"
| "uninitialized_move_loop tr first d_first i (Suc n) src dst w =
     (case move_construct_at tr src (first + i) (d_first + i) dst w of
        Ok _ ((src', dst'), w') \<Rightarrow> uninitialized_move_loop tr first d_first (Suc i) n src' dst' w'
      | Thrown ((src', dst'), w') \<Rightarrow>
         (case destroy_n d_first i dst' w' of
            Ok _ (dst'', w'') \<Rightarrow> Thrown ((src', dst''), w'')
          | Thrown (dst'', w'') \<Rightarrow> Thrown ((src', dst''), w'')
          | Abort r \<Rightarrow> Abort r)
      | Abort r \<Rightarrow> Abort r)"

text \<open>\<^verbatim>\<open>std::uninitialized_move_n(src + first, n, dst + d_first)\<close>.\<close>

definition uninitialized_move_n :: "'a traits \<Rightarrow> 'a cell list \<Rightarrow> nat \<Rightarrow> nat \<Rightarrow> nat
    \<Rightarrow> 'a cell list \<Rightarrow> 'a world
    \<Rightarrow> (unit, ('a cell list \<times> 'a cell list) \<times> 'a world) outcome" where
  "uninitialized_move_n tr src first n d_first dst w =
     uninitialized_move_loop tr first d_first 0 n src dst w"

text \<open>
  \<^verbatim>\<open>std::move(p + first, p + first + n, p + d_first)\<close>: move-assigns front to back.
\<close>

fun move_loop :: "'a traits \<Rightarrow> nat \<Rightarrow> nat \<Rightarrow> nat \<Rightarrow> 'a cell list \<Rightarrow> 'a world
    \<Rightarrow> (unit, 'a cell list \<times> 'a world) outcome" where
  "move_loop tr first 0 d_first cs w = Ok () (cs, w)"
| "move_loop tr first (Suc n) d_first cs w =
     (case move_assign_within tr first d_first cs w of
        Ok _ (cs', w') \<Rightarrow> move_loop tr (Suc first) n (Suc d_first) cs' w'
      | Thrown s \<Rightarrow> Thrown s
      | Abort r \<Rightarrow> Abort r)"

definition std_move :: "'a traits \<Rightarrow> nat \<Rightarrow> nat \<Rightarrow> nat \<Rightarrow> 'a cell list \<Rightarrow> 'a world
    \<Rightarrow> (unit, 'a cell list \<times> 'a world) outcome" where
  "std_move tr first lst d_first cs w = move_loop tr first (lst - first) d_first cs w"

text \<open>
  \<^verbatim>\<open>std::move_backward(p + first, p + last, p + d_last)\<close>: move-assigns back to front,
  the element before \<open>lst\<close> going to the slot before \<open>d_last\<close>.
\<close>

fun move_backward_loop :: "'a traits \<Rightarrow> nat \<Rightarrow> nat \<Rightarrow> nat \<Rightarrow> 'a cell list \<Rightarrow> 'a world
    \<Rightarrow> (unit, 'a cell list \<times> 'a world) outcome" where
  "move_backward_loop tr 0 lst d_last cs w = Ok () (cs, w)"
| "move_backward_loop tr (Suc n) lst d_last cs w =
     (if lst = 0 \<or> d_last = 0 then Abort UndefinedBehaviour
      else (case move_assign_within tr (lst - 1) (d_last - 1) cs w of
          Ok _ (cs', w') \<Rightarrow> move_backward_loop tr n (lst - 1) (d_last - 1) cs' w'
        | Thrown s \<Rightarrow> Thrown s
        | Abort r \<Rightarrow> Abort r))"

definition move_backward :: "'a traits \<Rightarrow> nat \<Rightarrow> nat \<Rightarrow> nat \<Rightarrow> 'a cell list \<Rightarrow> 'a world
    \<Rightarrow> (unit, 'a cell list \<times> 'a world) outcome" where
  "move_backward tr first lst d_last cs w =
     move_backward_loop tr (lst - first) lst d_last cs w"

section \<open>\<^verbatim>\<open>RawMemory<T>\<close>\<close>

text \<open>
  The members \<^verbatim>\<open>buffer_\<close>, \<^verbatim>\<open>capacity_\<close>, \<^verbatim>\<open>data_\<close> and \<^verbatim>\<open>size_\<close> are the fields
  \<open>buffer'\<close>, \<open>capacity'\<close>, \<open>data'\<close> and \<open>size'\<close> (a name cannot end in an underscore here).

  \<^verbatim>\<open>RawMemory\<close> owns its region and cannot be copied, so the pointer \<^verbatim>\<open>buffer_\<close> is
  modelled by the region it points to. \<^verbatim>\<open>Allocate\<close> returns the null pointer exactly
  when no cell is asked for, so the empty list of cells stands for \<^verbatim>\<open>nullptr\<close>.
\<close>

record 'a RawMemory =
  buffer' :: "'a cell list"
  capacity' :: nat

definition Allocate :: "nat \<Rightarrow> 'a world \<Rightarrow> ('a cell list, 'a world) outcome" where
  "Allocate n w =
     (if n \<noteq> 0
      then (case attempt True w of
          (True, w') \<Rightarrow> Thrown w'
        | (False, w') \<Rightarrow> Ok (replicate n Raw) (log_op (New n) w'))
      else Ok [] w)"

text \<open>
  \<^verbatim>\<open>operator delete\<close> runs no destructor: the objects still live in the region are lost.
  Deleting the null pointer does nothing.
\<close>

definition Deallocate :: "'a cell list \<Rightarrow> 'a world \<Rightarrow> 'a world" where
  "Deallocate buf w =
     (if buf = [] then w else log_op Delete (w\<lparr>leaked := leaked w @ live_objects buf\<rparr>))"

text \<open>\<^verbatim>\<open>RawMemory() = default\<close>\<close>

definition RawMemory_default :: "'a RawMemory" where
  "RawMemory_default = \<lparr>buffer' = [], capacity' = 0\<rparr>"

text \<open>\<^verbatim>\<open>explicit RawMemory(size_t capacity)\<close>\<close>

definition RawMemory_new :: "nat \<Rightarrow> 'a world \<Rightarrow> ('a RawMemory, 'a world) outcome" where
  "RawMemory_new capacity w =
     (case Allocate capacity w of
        Ok buf w' \<Rightarrow> Ok \<lparr>buffer' = buf, capacity' = capacity\<rparr> w'
      | Thrown w' \<Rightarrow> Thrown w'
      | Abort r \<Rightarrow> Abort r)"

text \<open>\<^verbatim>\<open>RawMemory(RawMemory &&other)\<close>: the new object, and \<open>other\<close> afterwards.\<close>

definition RawMemory_move :: "'a RawMemory \<Rightarrow> 'a RawMemory \<times> 'a RawMemory" where
  "RawMemory_move other =
     (\<lparr>buffer' = buffer' other, capacity' = capacity' other\<rparr>,
      other\<lparr>capacity' := 0, buffer' := []\<rparr>)"

text \<open>\<^verbatim>\<open>~RawMemory()\<close>\<close>

definition RawMemory_dtor :: "'a RawMemory \<Rightarrow> 'a world \<Rightarrow> 'a world" where
  "RawMemory_dtor m w = Deallocate (buffer' m) w"

text \<open>\<^verbatim>\<open>void Swap(RawMemory &other)\<close>, of two distinct objects.\<close>

definition RawMemory_Swap :: "'a RawMemory \<Rightarrow> 'a RawMemory \<Rightarrow> 'a RawMemory \<times> 'a RawMemory" where
  "RawMemory_Swap this other =
     (this\<lparr>buffer' := buffer' other, capacity' := capacity' other\<rparr>,
      other\<lparr>buffer' := buffer' this, capacity' := capacity' this\<rparr>)"

text \<open>
  \<^verbatim>\<open>RawMemory &operator=(RawMemory &&rhs)\<close>, of two distinct objects: the temporary takes
  over the region of \<open>rhs\<close>, is swapped with \<open>this\<close>, and releases what \<open>this\<close> held.
\<close>

definition RawMemory_move_assign :: "'a RawMemory \<Rightarrow> 'a RawMemory \<Rightarrow> 'a world
    \<Rightarrow> ('a RawMemory \<times> 'a RawMemory) \<times> 'a world" where
  "RawMemory_move_assign this rhs w =
     (let (tmp, rhs') = RawMemory_move rhs;
          (this', tmp') = RawMemory_Swap this tmp
      in ((this', rhs'), RawMemory_dtor tmp' w))"

text \<open>
  \<^verbatim>\<open>operator+\<close> and \<^verbatim>\<open>operator[]\<close> with their assertions; \<open>None\<close> is the failed
  assertion. \<^verbatim>\<open>GetAddress()\<close> is the offset 0.
\<close>

definition RawMemory_plus :: "'a RawMemory \<Rightarrow> nat \<Rightarrow> nat option" where
  "RawMemory_plus m offset = (if offset \<le> capacity' m then Some offset else None)"

definition RawMemory_index :: "'a RawMemory \<Rightarrow> nat \<Rightarrow> nat option" where
  "RawMemory_index m index = (if index < capacity' m then Some index else None)"

text \<open>
  \<^verbatim>\<open>std::swap\<close> on two distinct \<^verbatim>\<open>RawMemory\<close> objects, as the library defines it: a move
  construction and two move assignments.
\<close>

definition std_swap :: "'a RawMemory \<Rightarrow> 'a RawMemory \<Rightarrow> 'a world
    \<Rightarrow> ('a RawMemory \<times> 'a RawMemory) \<times> 'a world" where
  "std_swap a b w =
     (let (tmp, a1) = RawMemory_move a;
          ((a2, b1), w1) = RawMemory_move_assign a1 b w;
          ((b2, tmp1), w2) = RawMemory_move_assign b1 tmp w1
      in ((a2, b2), RawMemory_dtor tmp1 w2))"

section \<open>\<^verbatim>\<open>Vector<T>\<close>\<close>

record 'a Vector =
  data' :: "'a RawMemory"
  size' :: nat

definition set_buffer :: "'a Vector \<Rightarrow> 'a cell list \<Rightarrow> 'a Vector" where
  "set_buffer v cs = v\<lparr>data' := (data' v)\<lparr>buffer' := cs\<rparr>\<rparr>"

definition Size :: "'a Vector \<Rightarrow> nat" where
  "Size v = size' v"

definition Capacity :: "'a Vector \<Rightarrow> nat" where
  "Capacity v = capacity' (data' v)"

text \<open>
  \<^verbatim>\<open>T &operator[](size_t index)\<close> read: \<open>None\<close> when an assertion fails or no object
  lives there.
\<close>

definition Vector_at :: "'a Vector \<Rightarrow> nat \<Rightarrow> 'a option" where
  "Vector_at v index =
     (if index < size' v
      then (case RawMemory_index (data' v) index of
          None \<Rightarrow> None
        | Some i \<Rightarrow> object_at (buffer' (data' v)) i)
      else None)"

text \<open>\<^verbatim>\<open>Vector() = default\<close>\<close>

definition Vector_default :: "'a Vector" where
  "Vector_default = \<lparr>data' = RawMemory_default, size' = 0\<rparr>"

text \<open>
  \<^verbatim>\<open>explicit Vector(size_t size)\<close>. When the construction of the elements throws, the
  member \<^verbatim>\<open>data_\<close>, already constructed, is destroyed.
\<close>

definition Vector_sized :: "'a traits \<Rightarrow> nat \<Rightarrow> 'a world \<Rightarrow> ('a Vector, 'a world) outcome" where
  "Vector_sized tr n w =
     (case RawMemory_new n w of
        Thrown w1 \<Rightarrow> Thrown w1
      | Abort r \<Rightarrow> Abort r
      | Ok m w1 \<Rightarrow>
         (case uninitialized_value_construct_n tr 0 n (buffer' m) w1 of
            Ok _ (cs, w2) \<Rightarrow> Ok \<lparr>data' = m\<lparr>buffer' := cs\<rparr>, size' = n\<rparr> w2
          | Thrown (cs, w2) \<Rightarrow> Thrown (RawMemory_dtor (m\<lparr>buffer' := cs\<rparr>) w2)
          | Abort r \<Rightarrow> Abort r))"

text \<open>
  \<^verbatim>\<open>static void CopyConstruct(T *buf, const T &elem)\<close> as the copy constructor calls it:
  \<^verbatim>\<open>CopyConstruct(data_ + i, other.data_[i])\<close>.
\<close>

definition CopyConstruct :: "'a RawMemory \<Rightarrow> nat \<Rightarrow> 'a RawMemory \<Rightarrow> 'a world
    \<Rightarrow> (unit, 'a RawMemory \<times> 'a world) outcome" where
  "CopyConstruct other_data i d w =
     (case (RawMemory_plus d i, RawMemory_index other_data i) of
        (Some p, Some j) \<Rightarrow>
          (case copy_construct_at (buffer' other_data) j p (buffer' d) w of
             Ok _ (cs, w') \<Rightarrow> Ok () (d\<lparr>buffer' := cs\<rparr>, w')
           | Thrown (cs, w') \<Rightarrow> Thrown (d\<lparr>buffer' := cs\<rparr>, w')
           | Abort r \<Rightarrow> Abort r)
      | _ \<Rightarrow> Abort AssertionFailure)"

text \<open>
  The loop of the copy constructor, from \<open>i\<close> with \<open>n\<close> elements to go, inside its
  \<^verbatim>\<open>try\<close>: the handler destroys the \<open>i\<close> elements constructed so far and rethrows.
\<close>

fun Vector_copy_loop :: "'a RawMemory \<Rightarrow> nat \<Rightarrow> nat \<Rightarrow> 'a RawMemory \<Rightarrow> 'a world
    \<Rightarrow> (unit, 'a RawMemory \<times> 'a world) outcome" where
  "Vector_copy_loop other_data i 0 d w = Ok () (d, w)"
| "Vector_copy_loop other_data i (Suc n) d w =
     (case CopyConstruct other_data i d w of
        Ok _ (d', w') \<Rightarrow> Vector_copy_loop other_data (Suc i) n d' w'
      | Thrown (d', w') \<Rightarrow>
         (case destroy_n 0 i (buffer' d') w' of
            Ok _ (cs, w'') \<Rightarrow> Thrown (d'\<lparr>buffer' := cs\<rparr>, w'')
          | Thrown (cs, w'') \<Rightarrow> Thrown (d'\<lparr>buffer' := cs\<rparr>, w'')
          | Abort r \<Rightarrow> Abort r)
      | Abort r \<Rightarrow> Abort r)"

text \<open>\<^verbatim>\<open>Vector(const Vector &other)\<close>\<close>

definition Vector_copy :: "'a Vector \<Rightarrow> 'a world \<Rightarrow> ('a Vector, 'a world) outcome" where
  "Vector_copy other w =
     (case RawMemory_new (size' other) w of
        Thrown w1 \<Rightarrow> Thrown w1
      | Abort r \<Rightarrow> Abort r
      | Ok m w1 \<Rightarrow>
         (case Vector_copy_loop (data' other) 0 (size' other) m w1 of
            Ok _ (m', w2) \<Rightarrow> Ok \<lparr>data' = m', size' = size' other\<rparr> w2
          | Thrown (m', w2) \<Rightarrow> Thrown (RawMemory_dtor m' w2)
          | Abort r \<Rightarrow> Abort r))"

text \<open>\<^verbatim>\<open>void Swap(Vector &other)\<close>, of two distinct objects.\<close>

definition Vector_Swap :: "'a Vector \<Rightarrow> 'a Vector \<Rightarrow> 'a world
    \<Rightarrow> ('a Vector \<times> 'a Vector) \<times> 'a world" where
  "Vector_Swap this other w =
     (let ((d, od), w') = std_swap (data' this) (data' other) w
      in ((\<lparr>data' = d, size' = size' other\<rparr>, \<lparr>data' = od, size' = size' this\<rparr>), w'))"

text \<open>\<^verbatim>\<open>Vector(Vector &&other)\<close>: the new object, and \<open>other\<close> afterwards.\<close>

definition Vector_move :: "'a Vector \<Rightarrow> 'a world \<Rightarrow> ('a Vector \<times> 'a Vector) \<times> 'a world" where
  "Vector_move other w = Vector_Swap Vector_default other w"

text \<open>\<^verbatim>\<open>~Vector()\<close>, followed by the destructor of the member \<^verbatim>\<open>data_\<close>.\<close>

definition Vector_dtor :: "'a Vector \<Rightarrow> 'a world \<Rightarrow> (unit, 'a world) outcome" where
  "Vector_dtor v w =
     (case destroy_n 0 (size' v) (buffer' (data' v)) w of
        Ok _ (cs, w') \<Rightarrow> Ok () (RawMemory_dtor ((data' v)\<lparr>buffer' := cs\<rparr>) w')
      | Thrown (cs, w') \<Rightarrow> Thrown (RawMemory_dtor ((data' v)\<lparr>buffer' := cs\<rparr>) w')
      | Abort r \<Rightarrow> Abort r)"

text \<open>
  The two loops of the copy assignment, \<^verbatim>\<open>data_[i] = rhs[i]\<close>, from \<open>i\<close> with \<open>n\<close>
  elements to go. Both index operators assert \<open>i < capacity_\<close>.
\<close>

fun Vector_assign_loop :: "'a Vector \<Rightarrow> nat \<Rightarrow> nat \<Rightarrow> 'a RawMemory \<Rightarrow> 'a world
    \<Rightarrow> (unit, 'a RawMemory \<times> 'a world) outcome" where
  "Vector_assign_loop rhs i 0 d w = Ok () (d, w)"
| "Vector_assign_loop rhs i (Suc n) d w =
     (case (RawMemory_index d i, RawMemory_index (data' rhs) i) of
        (Some p, Some j) \<Rightarrow>
          (case object_at (buffer' (data' rhs)) j of
             None \<Rightarrow> Abort UndefinedBehaviour
           | Some x \<Rightarrow>
              (case assign_at CopyAssign True x p (buffer' d) w of
                 Ok _ (cs, w') \<Rightarrow> Vector_assign_loop rhs (Suc i) n (d\<lparr>buffer' := cs\<rparr>) w'
               | Thrown (cs, w') \<Rightarrow> Thrown (d\<lparr>buffer' := cs\<rparr>, w')
               | Abort r \<Rightarrow> Abort r))
      | _ \<Rightarrow> Abort AssertionFailure)"

text \<open>
  The body of \<^verbatim>\<open>Vector &operator=(const Vector &rhs)\<close> under \<^verbatim>\<open>if (this != &rhs)\<close>:
  \<open>this\<close> and \<open>rhs\<close> are distinct objects.
\<close>

definition Vector_copy_assign_body :: "'a Vector \<Rightarrow> 'a Vector \<Rightarrow> 'a world
    \<Rightarrow> (unit, 'a Vector \<times> 'a world) outcome" where
  "Vector_copy_assign_body this rhs w =
     (if size' rhs > capacity' (data' this)
      then (case Vector_copy rhs w of
          Thrown w1 \<Rightarrow> Thrown (this, w1)
        | Abort r \<Rightarrow> Abort r
        | Ok tmp w1 \<Rightarrow>
           (let ((this', tmp'), w2) = Vector_Swap this tmp w1
            in (case Vector_dtor tmp' w2 of
                Ok _ w3 \<Rightarrow> Ok () (this', w3)
              | Thrown w3 \<Rightarrow> Thrown (this', w3)
              | Abort r \<Rightarrow> Abort r)))
      else (case
         (if size' this > size' rhs
          then (case Vector_assign_loop rhs 0 (size' rhs) (data' this) w of
              Ok _ (d, w1) \<Rightarrow>
               (if size' this > size' rhs
                then (case destroy_n (size' rhs) (size' this - size' rhs) (buffer' d) w1 of
                    Ok _ (cs, w2) \<Rightarrow> Ok () (d\<lparr>buffer' := cs\<rparr>, w2)
                  | Thrown (cs, w2) \<Rightarrow> Thrown (d\<lparr>buffer' := cs\<rparr>, w2)
                  | Abort r \<Rightarrow> Abort r)
                else Ok () (d, w1))
            | Thrown s \<Rightarrow> Thrown s
            | Abort r \<Rightarrow> Abort r)
          else (case Vector_assign_loop rhs 0 (size' this) (data' this) w of
              Ok _ (d, w1) \<Rightarrow>
               (case uninitialized_copy_n (buffer' (data' rhs)) (size' this)
                       (size' rhs - size' this) (size' this) (buffer' d) w1 of
                  Ok _ (cs, w2) \<Rightarrow> Ok () (d\<lparr>buffer' := cs\<rparr>, w2)
                | Thrown (cs, w2) \<Rightarrow> Thrown (d\<lparr>buffer' := cs\<rparr>, w2)
                | Abort r \<Rightarrow> Abort r)
            | Thrown s \<Rightarrow> Thrown s
            | Abort r \<Rightarrow> Abort r)) of
          Ok _ (d, w') \<Rightarrow> Ok () (\<lparr>data' = d, size' = size' rhs\<rparr>, w')
        | Thrown (d, w') \<Rightarrow> Thrown (this\<lparr>data' := d\<rparr>, w')
        | Abort r \<Rightarrow> Abort r))"

text \<open>
  The two assignment operators take references, and the copy assignment compares them.
  Objects of the class are therefore kept in a store, addressed by numbers, and the
  operators take the addresses of \<open>this\<close> and \<open>rhs\<close>, which may be the same.
\<close>

type_synonym 'a store = "nat \<Rightarrow> 'a Vector"

text \<open>\<^verbatim>\<open>Vector &operator=(const Vector &rhs)\<close>\<close>

definition Vector_copy_assign :: "nat \<Rightarrow> nat \<Rightarrow> 'a store \<Rightarrow> 'a world
    \<Rightarrow> (unit, 'a store \<times> 'a world) outcome" where
  "Vector_copy_assign this rhs st w =
     (if this \<noteq> rhs
      then (case Vector_copy_assign_body (st this) (st rhs) w of
          Ok _ (v, w') \<Rightarrow> Ok () (st(this := v), w')
        | Thrown (v, w') \<Rightarrow> Thrown (st(this := v), w')
        | Abort r \<Rightarrow> Abort r)
      else Ok () (st, w))"

text \<open>
  \<^verbatim>\<open>Vector &operator=(Vector &&rhs)\<close>, statement by statement on the store. The first
  statement is the move assignment of \<^verbatim>\<open>RawMemory\<close>: its temporary takes the region of
  \<^verbatim>\<open>rhs.data_\<close>, is swapped with \<^verbatim>\<open>data_\<close>, and is destroyed.
\<close>

definition Vector_move_assign :: "nat \<Rightarrow> nat \<Rightarrow> 'a store \<Rightarrow> 'a world \<Rightarrow> 'a store \<times> 'a world" where
  "Vector_move_assign this rhs st w =
     (let (tmp, rd) = RawMemory_move (data' (st rhs));
          st1 = st(rhs := (st rhs)\<lparr>data' := rd\<rparr>);
          (d, tmp') = RawMemory_Swap (data' (st1 this)) tmp;
          st2 = st1(this := (st1 this)\<lparr>data' := d\<rparr>);
          w' = RawMemory_dtor tmp' w;
          st3 = st2(this := (st2 this)\<lparr>size' := size' (st2 rhs)\<rparr>);
          st4 = st3(rhs := (st3 rhs)\<lparr>size' := 0\<rparr>)
      in (st4, w'))"

text \<open>
  \<^verbatim>\<open>void ElementsMigration(RawMemory<T> &from, RawMemory<T> &to, size_t number_of_elements)\<close>:
  the result holds \<open>from\<close> and \<open>to\<close> afterwards.
\<close>

definition keep_source :: "'a cell list \<Rightarrow> (unit, 'a cell list \<times> 'a world) outcome
    \<Rightarrow> (unit, ('a cell list \<times> 'a cell list) \<times> 'a world) outcome" where
  "keep_source src r =
     (case r of
        Ok _ (dst, w) \<Rightarrow> Ok () ((src, dst), w)
      | Thrown (dst, w) \<Rightarrow> Thrown ((src, dst), w)
      | Abort e \<Rightarrow> Abort e)"

definition ElementsMigration :: "'a traits \<Rightarrow> 'a RawMemory \<Rightarrow> 'a RawMemory \<Rightarrow> nat \<Rightarrow> 'a world
    \<Rightarrow> (unit, ('a RawMemory \<times> 'a RawMemory) \<times> 'a world) outcome" where
  "ElementsMigration tr from to number_of_elements w =
     (case
        (if is_nothrow_move_constructible tr \<or> \<not> is_copy_constructible tr
         then uninitialized_move_n tr (buffer' from) 0 number_of_elements 0 (buffer' to) w
         else keep_source (buffer' from)
                (uninitialized_copy_n (buffer' from) 0 number_of_elements 0 (buffer' to) w)) of
        Ok _ ((src, dst), w1) \<Rightarrow>
          (case destroy_n 0 number_of_elements src w1 of
             Ok _ (src', w2) \<Rightarrow>
               Ok () (RawMemory_Swap (from\<lparr>buffer' := src'\<rparr>) (to\<lparr>buffer' := dst\<rparr>), w2)
           | Thrown (src', w2) \<Rightarrow> Thrown ((from\<lparr>buffer' := src'\<rparr>, to\<lparr>buffer' := dst\<rparr>), w2)
           | Abort r \<Rightarrow> Abort r)
      | Thrown ((src, dst), w1) \<Rightarrow> Thrown ((from\<lparr>buffer' := src\<rparr>, to\<lparr>buffer' := dst\<rparr>), w1)
      | Abort r \<Rightarrow> Abort r)"



text \<open>
  The arguments \<^verbatim>\<open>args...\<close> of an emplacement select a constructor of \<^verbatim>\<open>T\<close>:
  the copy constructor for a \<^verbatim>\<open>const T&\<close> or \<^verbatim>\<open>T&\<close>, the move constructor for a
  \<^verbatim>\<open>T&&\<close>, another constructor otherwise. They carry the value the new object will have.
\<close>

datatype 'a args = CopyOf 'a | MoveOf 'a | Args 'a

fun ctor_kind :: "'a args \<Rightarrow> op" where
  "ctor_kind (CopyOf x) = CopyCtor"
| "ctor_kind (MoveOf x) = MoveCtor"
| "ctor_kind (Args x) = ArgsCtor"

fun ctor_may_throw :: "'a traits \<Rightarrow> 'a args \<Rightarrow> bool" where
  "ctor_may_throw tr (MoveOf x) = (\<not> is_nothrow_move_constructible tr)"
| "ctor_may_throw tr _ = True"

fun ctor_value :: "'a args \<Rightarrow> 'a" where
  "ctor_value (CopyOf x) = x"
| "ctor_value (MoveOf x) = x"
| "ctor_value (Args x) = x"

text \<open>
  \<^verbatim>\<open>T &EmplaceBack(Args &&...args)\<close>. The reference returned is given as the index of
  the element; \<^verbatim>\<open>new_data\<close> is destroyed at the end of its block, or on the way out when
  an exception passes.
\<close>

definition EmplaceBack :: "'a traits \<Rightarrow> 'a args \<Rightarrow> 'a Vector \<Rightarrow> 'a world
    \<Rightarrow> (nat, 'a Vector \<times> 'a world) outcome" where
  "EmplaceBack tr a v w =
     (case
        (if size' v = Capacity v
         then (case RawMemory_new (if size' v = 0 then 1 else size' v * 2) w of
             Thrown w1 \<Rightarrow> Thrown (v, w1)
           | Abort r \<Rightarrow> Abort r
           | Ok new_data w1 \<Rightarrow>
              (case RawMemory_plus new_data (size' v) of
                 None \<Rightarrow> Abort AssertionFailure
               | Some p \<Rightarrow>
                  (case construct_at (ctor_kind a) (ctor_may_throw tr a) (ctor_value a) p
                          (buffer' new_data) w1 of
                     Thrown (cs, w2) \<Rightarrow> Thrown (v, RawMemory_dtor (new_data\<lparr>buffer' := cs\<rparr>) w2)
                   | Abort r \<Rightarrow> Abort r
                   | Ok _ (cs, w2) \<Rightarrow>
                      (case ElementsMigration tr (data' v) (new_data\<lparr>buffer' := cs\<rparr>) (size' v) w2 of
                         Ok _ ((d, nd), w3) \<Rightarrow>
                           Ok () (\<lparr>data' = d, size' = size' v + 1\<rparr>, RawMemory_dtor nd w3)
                       | Thrown ((d, nd), w3) \<Rightarrow> Thrown (v\<lparr>data' := d\<rparr>, RawMemory_dtor nd w3)
                       | Abort r \<Rightarrow> Abort r))))
         else (case construct_at (ctor_kind a) (ctor_may_throw tr a) (ctor_value a) (size' v)
                      (buffer' (data' v)) w of
             Ok _ (cs, w1) \<Rightarrow> Ok () ((set_buffer v cs)\<lparr>size' := size' v + 1\<rparr>, w1)
           | Thrown (cs, w1) \<Rightarrow> Thrown (set_buffer v cs, w1)
           | Abort r \<Rightarrow> Abort r)) of
        Ok _ (v', w') \<Rightarrow>
          (case RawMemory_index (data' v') (size' v' - 1) of
             None \<Rightarrow> Abort AssertionFailure
           | Some i \<Rightarrow> Ok i (v', w'))
      | Thrown s \<Rightarrow> Thrown s
      | Abort r \<Rightarrow> Abort r)"

text \<open>\<^verbatim>\<open>void PushBack(T &value)\<close> and \<^verbatim>\<open>void PushBack(T &&value)\<close>\<close>

definition PushBack :: "'a traits \<Rightarrow> 'a \<Rightarrow> 'a Vector \<Rightarrow> 'a world
    \<Rightarrow> (unit, 'a Vector \<times> 'a world) outcome" where
  "PushBack tr val v w =
     (case EmplaceBack tr (CopyOf val) v w of
        Ok _ s \<Rightarrow> Ok () s | Thrown s \<Rightarrow> Thrown s | Abort r \<Rightarrow> Abort r)"

definition PushBack_rvalue :: "'a traits \<Rightarrow> 'a \<Rightarrow> 'a Vector \<Rightarrow> 'a world
    \<Rightarrow> (unit, 'a Vector \<times> 'a world) outcome" where
  "PushBack_rvalue tr val v w =
     (case EmplaceBack tr (MoveOf val) v w of
        Ok _ s \<Rightarrow> Ok () s | Thrown s \<Rightarrow> Thrown s | Abort r \<Rightarrow> Abort r)"

text \<open>
  \<^verbatim>\<open>iterator Emplace(const_iterator pos, Args &&...args)\<close>. Iterators are offsets from
  \<^verbatim>\<open>begin()\<close>, so \<^verbatim>\<open>begin() <= pos\<close> always holds and \<^verbatim>\<open>std::distance(cbegin(), pos)\<close>
  is \<open>pos\<close> itself. The local \<^verbatim>\<open>temporary\<close> of the last branch is destroyed when its
  block is left, normally or by an exception.
\<close>

definition Emplace :: "'a traits \<Rightarrow> nat \<Rightarrow> 'a args \<Rightarrow> 'a Vector \<Rightarrow> 'a world
    \<Rightarrow> (nat, 'a Vector \<times> 'a world) outcome" where
  "Emplace tr pos a v w =
     (if \<not> pos \<le> size' v then Abort AssertionFailure
      else if pos = size' v
      then (case EmplaceBack tr a v w of
          Ok _ (v', w') \<Rightarrow> Ok (size' v' - 1) (v', w')
        | Thrown s \<Rightarrow> Thrown s
        | Abort r \<Rightarrow> Abort r)
      else (let position = pos in
        if size' v = Capacity v
        then (case RawMemory_new (if size' v = 0 then 1 else size' v * 2) w of
            Thrown w1 \<Rightarrow> Thrown (v, w1)
          | Abort r \<Rightarrow> Abort r
          | Ok new_data w1 \<Rightarrow>
             (case construct_at (ctor_kind a) (ctor_may_throw tr a) (ctor_value a) position
                     (buffer' new_data) w1 of
                Thrown (cs, w2) \<Rightarrow> Thrown (v, RawMemory_dtor (new_data\<lparr>buffer' := cs\<rparr>) w2)
              | Abort r \<Rightarrow> Abort r
              | Ok _ (cs, w2) \<Rightarrow>
                 (case
                    (if is_nothrow_move_constructible tr \<or> \<not> is_copy_constructible tr
                     then (case uninitialized_move_n tr (buffer' (data' v)) 0 position 0 cs w2 of
                         Ok _ ((src, dst), w3) \<Rightarrow>
                           uninitialized_move_n tr src position (size' v - position)
                             (position + 1) dst w3
                       | Thrown s \<Rightarrow> Thrown s
                       | Abort r \<Rightarrow> Abort r)
                     else (case uninitialized_copy_n (buffer' (data' v)) 0 position 0 cs w2 of
                         Ok _ (dst, w3) \<Rightarrow>
                           keep_source (buffer' (data' v))
                             (uninitialized_copy_n (buffer' (data' v)) position
                                (size' v - position) (position + 1) dst w3)
                       | Thrown (dst, w3) \<Rightarrow> Thrown ((buffer' (data' v), dst), w3)
                       | Abort r \<Rightarrow> Abort r)) of
                    Ok _ ((src, dst), w4) \<Rightarrow>
                      (case destroy_n 0 (size' v) src w4 of
                         Ok _ (src', w5) \<Rightarrow>
                           (let (d, nd) = RawMemory_Swap ((data' v)\<lparr>buffer' := src'\<rparr>)
                                            (new_data\<lparr>buffer' := dst\<rparr>)
                            in Ok position (\<lparr>data' = d, size' = size' v + 1\<rparr>, RawMemory_dtor nd w5))
                       | Thrown (src', w5) \<Rightarrow>
                           Thrown (set_buffer v src', RawMemory_dtor (new_data\<lparr>buffer' := dst\<rparr>) w5)
                       | Abort r \<Rightarrow> Abort r)
                  | Thrown ((src, dst), w4) \<Rightarrow>
                      Thrown (set_buffer v src, RawMemory_dtor (new_data\<lparr>buffer' := dst\<rparr>) w4)
                  | Abort r \<Rightarrow> Abort r)))
        else (case attempt (ctor_may_throw tr a) w of
            (True, w1) \<Rightarrow> Thrown (v, w1)
          | (False, w0) \<Rightarrow>
             (let w1 = log_op (ctor_kind a) w0 in
              case RawMemory_index (data' v) (size' v - 1) of
                None \<Rightarrow> Abort AssertionFailure
              | Some j \<Rightarrow>
                 (case move_construct_within tr j (size' v) (buffer' (data' v)) w1 of
                    Thrown (cs, w2) \<Rightarrow> Thrown (set_buffer v cs, log_op Dtor w2)
                  | Abort r \<Rightarrow> Abort r
                  | Ok _ (cs, w2) \<Rightarrow>
                     (case move_backward tr position (size' v - 1) (size' v) cs w2 of
                        Thrown (cs', w3) \<Rightarrow> Thrown (set_buffer v cs', log_op Dtor w3)
                      | Abort r \<Rightarrow> Abort r
                      | Ok _ (cs', w3) \<Rightarrow>
                         (case RawMemory_index (data' v) position of
                            None \<Rightarrow> Abort AssertionFailure
                          | Some p \<Rightarrow>
                             (case assign_at MoveAssign (\<not> is_nothrow_move_assignable tr)
                                     (ctor_value a) p cs' w3 of
                                Thrown (cs'', w4) \<Rightarrow> Thrown (set_buffer v cs'', log_op Dtor w4)
                              | Abort r \<Rightarrow> Abort r
                              | Ok _ (cs'', w4) \<Rightarrow>
                                  Ok position ((set_buffer v cs'')\<lparr>size' := size' v + 1\<rparr>,
                                     log_op Dtor w4)))))))))"

text \<open>
  \<^verbatim>\<open>iterator Insert(const_iterator pos, const T &value)\<close> and
  \<^verbatim>\<open>iterator Insert(const_iterator pos, T &&value)\<close>
\<close>

definition Insert :: "'a traits \<Rightarrow> nat \<Rightarrow> 'a \<Rightarrow> 'a Vector \<Rightarrow> 'a world
    \<Rightarrow> (nat, 'a Vector \<times> 'a world) outcome" where
  "Insert tr pos val v w = Emplace tr pos (CopyOf val) v w"

definition Insert_rvalue :: "'a traits \<Rightarrow> nat \<Rightarrow> 'a \<Rightarrow> 'a Vector \<Rightarrow> 'a world
    \<Rightarrow> (nat, 'a Vector \<times> 'a world) outcome" where
  "Insert_rvalue tr pos val v w = Emplace tr pos (MoveOf val) v w"

text \<open>
  \<^verbatim>\<open>iterator Erase(const_iterator pos) noexcept\<close>: an exception of the element's move
  assignment cannot leave the function.
\<close>

definition Erase :: "'a traits \<Rightarrow> nat \<Rightarrow> 'a Vector \<Rightarrow> 'a world
    \<Rightarrow> (nat, 'a Vector \<times> 'a world) outcome" where
  "Erase tr pos v w =
     (if \<not> pos < size' v then Abort AssertionFailure
      else (let position = pos in
        case std_move tr (position + 1) (size' v) position (buffer' (data' v)) w of
          Thrown s \<Rightarrow> Abort Terminate
        | Abort r \<Rightarrow> Abort r
        | Ok _ (cs, w1) \<Rightarrow>
           (case destroy_n (size' v - 1) 1 cs w1 of
              Ok _ (cs', w2) \<Rightarrow> Ok position ((set_buffer v cs')\<lparr>size' := size' v - 1\<rparr>, w2)
            | Thrown s \<Rightarrow> Abort Terminate
            | Abort r \<Rightarrow> Abort r)))"

text \<open>\<^verbatim>\<open>void PopBack() noexcept\<close>\<close>

definition PopBack :: "'a Vector \<Rightarrow> 'a world \<Rightarrow> (unit, 'a Vector \<times> 'a world) outcome" where
  "PopBack v w =
     (if \<not> size' v > 0 then Abort AssertionFailure
      else (case destroy_n (size' v - 1) 1 (buffer' (data' v)) w of
          Ok _ (cs, w1) \<Rightarrow> Ok () ((set_buffer v cs)\<lparr>size' := size' v - 1\<rparr>, w1)
        | Thrown s \<Rightarrow> Abort Terminate
        | Abort r \<Rightarrow> Abort r))"

section \<open>Well-formed vectors and what they hold\<close>

text \<open>
  The class invariant: the region has \<open>capacity'\<close> cells, the first \<open>size'\<close> of them hold
  live objects and the others are raw.
\<close>

fun is_Live :: "'a cell \<Rightarrow> bool" where
  "is_Live (Live x) = True"
| "is_Live Raw = False"

definition vector_inv :: "'a Vector \<Rightarrow> bool" where
  "vector_inv v \<longleftrightarrow>
     length (buffer' (data' v)) = capacity' (data' v) \<and>
     size' v \<le> capacity' (data' v) \<and>
     list_all is_Live (take (size' v) (buffer' (data' v))) \<and>
     list_all (\<lambda>c. \<not> is_Live c) (drop (size' v) (buffer' (data' v)))"

text \<open>The sequence of elements \<^verbatim>\<open>[begin(), end())\<close>.\<close>

definition elements :: "'a Vector \<Rightarrow> 'a list" where
  "elements v = live_objects (take (size' v) (buffer' (data' v)))"

text \<open>The well-formed vector with the elements \<open>xs\<close> and \<open>k\<close> spare cells.\<close>

definition vec :: "'a list \<Rightarrow> nat \<Rightarrow> 'a Vector" where
  "vec xs k =
     \<lparr>data' = \<lparr>buffer' = map Live xs @ replicate k Raw, capacity' = length xs + k\<rparr>,
      size' = length xs\<rparr>"

text \<open>A run in which nothing throws.\<close>

definition no_faults :: "'a world \<Rightarrow> bool" where
  "no_faults w \<longleftrightarrow> True \<notin> set (plan w)"

text \<open>
  \<open>follows w w'\<close>: the state \<open>w'\<close> comes after \<open>w\<close> in a run that lost no object. The plan
  can only have been used up.
\<close>

definition follows :: "'a world \<Rightarrow> 'a world \<Rightarrow> bool" where
  "follows w w' \<longleftrightarrow> leaked w' = leaked w \<and> set (plan w') \<subseteq> set (plan w)"

text \<open>
  The constructor that relocates the elements on a reallocation, in the words of the
  specification: by move when the move construction of the element type cannot fail or
  the type has no copy constructor, by copy otherwise.
\<close>

definition relocation_ctor :: "'a traits \<Rightarrow> op" where
  "relocation_ctor tr =
     (if is_nothrow_move_constructible tr \<or> \<not> is_copy_constructible tr then MoveCtor else CopyCtor)"

text \<open>
  Inputs for the examples. Three element types over the naturals, with 0 as the value
  of \<^verbatim>\<open>T()\<close> and of a moved-from object: one that is copied on relocation, one that is
  moved and cannot throw doing so, and one that can only be moved and may throw. A run
  that starts with an empty trace and in which nothing throws, and the runs in which the
  fallible operation number \<open>k\<close>, counted from 0, throws. A store with two vectors.
\<close>

definition copied_nat :: "nat traits" where
  "copied_nat = \<lparr>is_nothrow_move_constructible = False, is_copy_constructible = True,
     is_nothrow_move_assignable = True, value_initialized = 0, moved_from = (\<lambda>x. 0)\<rparr>"

definition quiet_world :: "nat world" where
  "quiet_world = \<lparr>plan = [], trace = [], leaked = []\<rparr>"

definition two_vectors :: "nat store" where
  "two_vectors = (\<lambda>p. vec [] 0)(0 := vec [1, 2] 3, 1 := vec [7, 8, 9] 0)"



definition throwing_at :: "nat \<Rightarrow> nat world" where
  "throwing_at k = \<lparr>plan = replicate k False @ [True], trace = [], leaked = []\<rparr>"

section \<open>The effect of the element operations and of the algorithms\<close>

lemma follows_refl [simp]: "follows w w"
  by (simp add: follows_def)

lemma follows_trans: "follows w w1 \<Longrightarrow> follows w1 w2 \<Longrightarrow> follows w w2"
  by (auto simp: follows_def)

lemma follows_log_op [simp]: "follows w (log_op k w') = follows w w'"
  by (simp add: follows_def log_op_def)

lemma follows_log_op_left [simp]: "follows (log_op k w) w' = follows w w'"
  by (simp add: follows_def log_op_def)

lemma follows_trace_update [simp]: "follows w (w'\<lparr>trace := t\<rparr>) = follows w w'"
  by (simp add: follows_def)

lemma follows_no_faults: "follows w w' \<Longrightarrow> no_faults w \<Longrightarrow> no_faults w'"
  by (auto simp: follows_def no_faults_def)

lemma trace_log_op [simp]: "trace (log_op k w) = trace w @ [k]"
  by (simp add: log_op_def)

lemma leaked_log_op [simp]: "leaked (log_op k w) = leaked w"
  by (simp add: log_op_def)

lemma plan_log_op [simp]: "plan (log_op k w) = plan w"
  by (simp add: log_op_def)

lemma no_faults_log_op [simp]: "no_faults (log_op k w) = no_faults w"
  by (simp add: no_faults_def)

lemma attempt_cases:
  obtains (ok) w' where "attempt b w = (False, w')" "follows w w'" "trace w' = trace w"
  | (thrown) w' where "attempt b w = (True, w')" "follows w w'" "trace w' = trace w"
      "b" "\<not> no_faults w"
proof (cases "b \<and> plan w \<noteq> [] \<and> hd (plan w)")
  case True
  then obtain bs where "plan w = True # bs" by (cases "plan w") auto
  with True have "attempt b w = (True, w\<lparr>plan := bs\<rparr>)" "follows w (w\<lparr>plan := bs\<rparr>)"
    "\<not> no_faults w"
    by (auto simp: attempt_def follows_def no_faults_def)
  with True show ?thesis by (intro thrown [of "w\<lparr>plan := bs\<rparr>"]) auto
next
  case False
  then have "attempt b w = (False, w) \<or> (\<exists>bs. plan w = False # bs \<and> attempt b w = (False, w\<lparr>plan := bs\<rparr>))"
    by (cases "plan w") (auto simp: attempt_def)
  then show ?thesis
  proof (elim disjE exE conjE)
    assume "attempt b w = (False, w)"
    then show ?thesis by (intro ok [of w]) auto
  next
    fix bs assume "plan w = False # bs" "attempt b w = (False, w\<lparr>plan := bs\<rparr>)"
    then show ?thesis by (intro ok [of "w\<lparr>plan := bs\<rparr>"]) (auto simp: follows_def)
  qed
qed

lemma attempt_nothrow [simp]: "attempt False w = (False, w)"
  by (simp add: attempt_def)

lemma object_at_Live [simp]: "object_at (pre @ Live x # post) (length pre) = Some x"
  by (simp add: object_at_def)

lemma object_at_Raw [simp]: "object_at (pre @ Raw # post) (length pre) = None"
  by (simp add: object_at_def)

lemma live_objects_append [simp]: "live_objects (cs @ ds) = live_objects cs @ live_objects ds"
  by (induction cs rule: live_objects.induct) auto

lemma live_objects_map_Live [simp]: "live_objects (map Live xs) = xs"
  by (induction xs) auto

lemma live_objects_replicate_Raw [simp]: "live_objects (replicate n Raw) = []"
  by (induction n) auto

lemma destroy_at_Live [simp]:
  "destroy_at (length pre) (pre @ Live x # post) w = Ok () (pre @ Raw # post, log_op Dtor w)"
  by (simp add: destroy_at_def)

lemma destroy_n_live:
  "destroy_n (length pre) (length xs) (pre @ map Live xs @ post) w =
     Ok () (pre @ replicate (length xs) Raw @ post, w\<lparr>trace := trace w @ replicate (length xs) Dtor\<rparr>)"
proof (induction xs arbitrary: pre w)
  case Nil
  then show ?case by simp
next
  case (Cons x xs)
  from Cons.IH [of "pre @ [Raw]" "log_op Dtor w"] show ?case
    by (simp add: log_op_def replicate_append_same)
qed

lemma construct_at_Raw:
  obtains (ok) w' where
    "construct_at k b x (length pre) (pre @ Raw # post) w = Ok () (pre @ Live x # post, w')"
    "follows w w'" "trace w' = trace w @ [k]"
  | (thrown) w' where
    "construct_at k b x (length pre) (pre @ Raw # post) w = Thrown (pre @ Raw # post, w')"
    "follows w w'" "b" "\<not> no_faults w"
proof (cases rule: attempt_cases [of b w])
  case (ok w')
  then show ?thesis by (intro that(1) [of "log_op k w'"]) (auto simp: construct_at_def)
next
  case (thrown w')
  then show ?thesis by (intro that(2) [of w']) (auto simp: construct_at_def)
qed



lemma uninitialized_copy_loop_cases:
  "first + length ys = length sa \<Longrightarrow>
   \<exists>w'. follows w w' \<and>
     (uninitialized_copy_loop (sa @ map Live xs @ sb) first (length pre) (length ys) (length xs)
        (pre @ map Live ys @ replicate (length xs) Raw @ post) w =
          Ok () (pre @ map Live ys @ map Live xs @ post, w') \<and>
        trace w' = trace w @ replicate (length xs) CopyCtor
      \<or> uninitialized_copy_loop (sa @ map Live xs @ sb) first (length pre) (length ys) (length xs)
        (pre @ map Live ys @ replicate (length xs) Raw @ post) w =
          Thrown (pre @ replicate (length ys) Raw @ replicate (length xs) Raw @ post, w') \<and>
        \<not> no_faults w)"
proof (induction xs arbitrary: ys sa w)
  case Nil
  show ?case by (intro exI [of _ w]) simp
next
  case (Cons x xs)
  show ?case
  proof (cases rule: construct_at_Raw [of CopyCtor True x "pre @ map Live ys"
        "replicate (length xs) Raw @ post" w])
    case (ok w1)
    from Cons.prems have "first + length (ys @ [x]) = length (sa @ [Live x])" by simp
    from Cons.IH [OF this, where w = w1] obtain w2 where w2: "follows w1 w2"
      and r: "uninitialized_copy_loop (sa @ Live x # map Live xs @ sb) first (length pre)
            (Suc (length ys)) (length xs)
            (pre @ map Live ys @ Live x # replicate (length xs) Raw @ post) w1 =
            Ok () (pre @ map Live ys @ Live x # map Live xs @ post, w2) \<and>
          trace w2 = trace w1 @ replicate (length xs) CopyCtor
        \<or> uninitialized_copy_loop (sa @ Live x # map Live xs @ sb) first (length pre)
            (Suc (length ys)) (length xs)
            (pre @ map Live ys @ Live x # replicate (length xs) Raw @ post) w1 =
            Thrown (pre @ replicate (Suc (length ys)) Raw @ replicate (length xs) Raw @ post, w2) \<and>
          \<not> no_faults w1"
      by auto
    from ok w2 have f: "follows w w2" by (blast intro: follows_trans)
    from ok have nf: "\<not> no_faults w1 \<Longrightarrow> \<not> no_faults w" by (blast dest: follows_no_faults)
    from r ok f nf Cons.prems show ?thesis
      by (intro exI [of _ w2]) (auto simp: replicate_append_same copy_construct_at_def)
  next
    case (thrown w1)
    with destroy_n_live [of pre ys "Raw # replicate (length xs) Raw @ post" w1] Cons.prems
    show ?thesis
      by (intro exI [of _ "w1\<lparr>trace := trace w1 @ replicate (length ys) Dtor\<rparr>"])
        (simp add: copy_construct_at_def)
  qed
qed


lemma uninitialized_move_loop_cases:
  "first + length ys = length sa \<Longrightarrow>
   \<exists>w'. follows w w' \<and>
     (uninitialized_move_loop tr first (length pre) (length ys) (length xs)
        (sa @ map Live xs @ sb) (pre @ map Live ys @ replicate (length xs) Raw @ post) w =
          Ok () ((sa @ map Live (map (moved_from tr) xs) @ sb,
                  pre @ map Live ys @ map Live xs @ post), w') \<and>
        trace w' = trace w @ replicate (length xs) MoveCtor
      \<or> (\<exists>src'. uninitialized_move_loop tr first (length pre) (length ys) (length xs)
        (sa @ map Live xs @ sb) (pre @ map Live ys @ replicate (length xs) Raw @ post) w =
          Thrown ((src', pre @ replicate (length ys) Raw @ replicate (length xs) Raw @ post), w')) \<and>
        \<not> no_faults w \<and> \<not> is_nothrow_move_constructible tr)"
proof (induction xs arbitrary: ys sa w)
  case Nil
  show ?case by (intro exI [of _ w]) simp
next
  case (Cons x xs)
  let ?b = "\<not> is_nothrow_move_constructible tr"
  show ?case
  proof (cases rule: construct_at_Raw [of MoveCtor ?b x "pre @ map Live ys"
        "replicate (length xs) Raw @ post" w])
    case (ok w1)
    from Cons.prems have "first + length (ys @ [x]) = length (sa @ [Live (moved_from tr x)])"
      by simp
    from Cons.IH [OF this, where w = w1] obtain w2 where w2: "follows w1 w2"
      and r: "uninitialized_move_loop tr first (length pre) (Suc (length ys)) (length xs)
            (sa @ Live (moved_from tr x) # map Live xs @ sb)
            (pre @ map Live ys @ Live x # replicate (length xs) Raw @ post) w1 =
            Ok () ((sa @ Live (moved_from tr x) # map Live (map (moved_from tr) xs) @ sb,
                    pre @ map Live ys @ Live x # map Live xs @ post), w2) \<and>
          trace w2 = trace w1 @ replicate (length xs) MoveCtor
        \<or> (\<exists>src'. uninitialized_move_loop tr first (length pre) (Suc (length ys)) (length xs)
            (sa @ Live (moved_from tr x) # map Live xs @ sb)
            (pre @ map Live ys @ Live x # replicate (length xs) Raw @ post) w1 =
            Thrown ((src', pre @ replicate (Suc (length ys)) Raw @ replicate (length xs) Raw @ post), w2)) \<and>
          \<not> no_faults w1 \<and> \<not> is_nothrow_move_constructible tr"
      by auto
    from ok w2 have f: "follows w w2" by (blast intro: follows_trans)
    from ok have nf: "\<not> no_faults w1 \<Longrightarrow> \<not> no_faults w" by (blast dest: follows_no_faults)
    from r ok f nf Cons.prems show ?thesis
      by (intro exI [of _ w2]) (auto simp: replicate_append_same move_construct_at_def)
  next
    case (thrown w1)
    with destroy_n_live [of pre ys "Raw # replicate (length xs) Raw @ post" w1] Cons.prems
    show ?thesis
      by (intro exI [of _ "w1\<lparr>trace := trace w1 @ replicate (length ys) Dtor\<rparr>"])
        (simp add: move_construct_at_def)
  qed
qed

lemma assign_at_Live:
  obtains (ok) w' where
    "assign_at k b x (length pre) (pre @ Live y # post) w = Ok () (pre @ Live x # post, w')"
    "follows w w'" "trace w' = trace w @ [k]"
  | (thrown) w' where
    "assign_at k b x (length pre) (pre @ Live y # post) w = Thrown (pre @ Live y # post, w')"
    "follows w w'" "b" "\<not> no_faults w"
proof (cases rule: attempt_cases [of b w])
  case (ok w')
  then show ?thesis by (intro that(1) [of "log_op k w'"]) (auto simp: assign_at_def)
next
  case (thrown w')
  then show ?thesis by (intro that(2) [of w']) (auto simp: assign_at_def)
qed

lemma move_loop_cases:
  "\<exists>w'. follows w w' \<and>
     ((\<exists>c. move_loop tr (Suc (length pre)) (length ys) (length pre)
          (pre @ Live z # map Live ys @ post) w =
          Ok () (pre @ map Live ys @ Live c # post, w')) \<and>
        trace w' = trace w @ replicate (length ys) MoveAssign
      \<or> (\<exists>cs. move_loop tr (Suc (length pre)) (length ys) (length pre)
          (pre @ Live z # map Live ys @ post) w = Thrown (cs, w')) \<and>
        \<not> no_faults w \<and> \<not> is_nothrow_move_assignable tr)"
proof (induction ys arbitrary: pre z w)
  case Nil
  show ?case by (intro exI [of _ w]) simp
next
  case (Cons y ys)
  let ?b = "\<not> is_nothrow_move_assignable tr"
  have src: "object_at (pre @ Live z # Live y # map Live ys @ post) (Suc (length pre)) = Some y"
    using object_at_Live [of "pre @ [Live z]" y "map Live ys @ post"] by simp
  show ?case
  proof (cases rule: assign_at_Live [of MoveAssign ?b y pre z "Live y # map Live ys @ post" w])
    case (ok w1)
    have upd: "(pre @ Live y # Live y # map Live ys @ post)[Suc (length pre) := Live (moved_from tr y)]
        = pre @ Live y # Live (moved_from tr y) # map Live ys @ post"
      using list_update_length [of "pre @ [Live y]" "Live y" "map Live ys @ post"] by simp
    from Cons.IH [where pre = "pre @ [Live y]" and z = "moved_from tr y" and w = w1]
    obtain w2 where w2: "follows w1 w2"
      and r: "(\<exists>c. move_loop tr (Suc (Suc (length pre))) (length ys) (Suc (length pre))
            (pre @ Live y # Live (moved_from tr y) # map Live ys @ post) w1 =
            Ok () (pre @ Live y # map Live ys @ Live c # post, w2)) \<and>
          trace w2 = trace w1 @ replicate (length ys) MoveAssign
        \<or> (\<exists>cs. move_loop tr (Suc (Suc (length pre))) (length ys) (Suc (length pre))
            (pre @ Live y # Live (moved_from tr y) # map Live ys @ post) w1 = Thrown (cs, w2)) \<and>
          \<not> no_faults w1 \<and> \<not> is_nothrow_move_assignable tr"
      by auto
    from ok w2 have f: "follows w w2" by (blast intro: follows_trans)
    from ok have nf: "\<not> no_faults w1 \<Longrightarrow> \<not> no_faults w" by (blast dest: follows_no_faults)
    from r ok f nf src upd show ?thesis
      by (intro exI [of _ w2]) (auto simp: move_assign_within_def)
  next
    case (thrown w1)
    with src show ?thesis
      by (intro exI [of _ w1]) (simp add: move_assign_within_def)
  qed
qed

lemma move_backward_loop_cases:
  "\<exists>w'. follows w w' \<and>
     ((\<exists>c. move_backward_loop tr (length ys) (length pre + length ys) (Suc (length pre + length ys))
          (pre @ map Live ys @ Live z # post) w =
          Ok () (pre @ Live c # map Live ys @ post, w')) \<and>
        trace w' = trace w @ replicate (length ys) MoveAssign
      \<or> (\<exists>cs. move_backward_loop tr (length ys) (length pre + length ys) (Suc (length pre + length ys))
          (pre @ map Live ys @ Live z # post) w = Thrown (cs, w')) \<and>
        \<not> no_faults w \<and> \<not> is_nothrow_move_assignable tr)"
proof (induction ys arbitrary: z post w rule: rev_induct)
  case Nil
  show ?case by (intro exI [of _ w]) simp
next
  case (snoc y ys)
  let ?b = "\<not> is_nothrow_move_assignable tr"
  have src: "object_at (pre @ map Live ys @ Live y # Live z # post) (length pre + length ys) = Some y"
    using object_at_Live [of "pre @ map Live ys" y "Live z # post"] by simp
  show ?case
  proof (cases rule: assign_at_Live [of MoveAssign ?b y "pre @ map Live ys @ [Live y]" z post w])
    case (ok w1)
    have upd: "(pre @ map Live ys @ Live y # Live y # post)[length pre + length ys := Live (moved_from tr y)]
        = pre @ map Live ys @ Live (moved_from tr y) # Live y # post"
      using list_update_length [of "pre @ map Live ys" "Live y" "Live y # post"] by simp
    from snoc.IH [where z = "moved_from tr y" and post = "Live y # post" and w = w1]
    obtain w2 where w2: "follows w1 w2"
      and r: "(\<exists>c. move_backward_loop tr (length ys) (length pre + length ys)
            (Suc (length pre + length ys))
            (pre @ map Live ys @ Live (moved_from tr y) # Live y # post) w1 =
            Ok () (pre @ Live c # map Live ys @ Live y # post, w2)) \<and>
          trace w2 = trace w1 @ replicate (length ys) MoveAssign
        \<or> (\<exists>cs. move_backward_loop tr (length ys) (length pre + length ys)
            (Suc (length pre + length ys))
            (pre @ map Live ys @ Live (moved_from tr y) # Live y # post) w1 = Thrown (cs, w2)) \<and>
          \<not> no_faults w1 \<and> \<not> is_nothrow_move_assignable tr"
      by auto
    from ok w2 have f: "follows w w2" by (blast intro: follows_trans)
    from ok have nf: "\<not> no_faults w1 \<Longrightarrow> \<not> no_faults w" by (blast dest: follows_no_faults)
    from r ok f nf src upd show ?thesis
      by (intro exI [of _ w2]) (auto simp: move_assign_within_def)
  next
    case (thrown w1)
    with src show ?thesis
      by (intro exI [of _ w1]) (simp add: move_assign_within_def)
  qed
qed

lemma map_Live_live_objects: "list_all is_Live cs \<Longrightarrow> map Live (live_objects cs) = cs"
  by (induction cs rule: live_objects.induct) auto

lemma not_Live_replicate: "list_all (\<lambda>c. \<not> is_Live c) cs \<Longrightarrow> cs = replicate (length cs) Raw"
  by (induction cs rule: live_objects.induct) auto

lemma length_live_objects: "list_all is_Live cs \<Longrightarrow> length (live_objects cs) = length cs"
  by (induction cs rule: live_objects.induct) auto

lemma vector_inv_vec:
  assumes "vector_inv v"
  shows "v = vec (elements v) (capacity' (data' v) - size' v)"
    and "length (elements v) = size' v"
proof -
  let ?b = "buffer' (data' v)"
  from assms have len: "length ?b = capacity' (data' v)" and le: "size' v \<le> capacity' (data' v)"
    and live: "list_all is_Live (take (size' v) ?b)"
    and raw: "list_all (\<lambda>c. \<not> is_Live c) (drop (size' v) ?b)"
    by (auto simp: vector_inv_def)
  from live have 1: "map Live (elements v) = take (size' v) ?b"
    by (simp add: elements_def map_Live_live_objects)
  from raw len have 2: "drop (size' v) ?b = replicate (capacity' (data' v) - size' v) Raw"
    using not_Live_replicate by fastforce
  from live len le show l: "length (elements v) = size' v"
    by (simp add: elements_def length_live_objects)
  have "?b = take (size' v) ?b @ drop (size' v) ?b" by simp
  with 1 2 have "?b = map Live (elements v) @ replicate (capacity' (data' v) - size' v) Raw"
    by simp
  with l le show "v = vec (elements v) (capacity' (data' v) - size' v)"
    by (simp add: vec_def)
qed

lemma list_all_map_Live [simp]: "list_all is_Live (map Live xs)"
  by (induction xs) auto

lemma list_all_replicate_Raw [simp]: "list_all (\<lambda>c. \<not> is_Live c) (replicate n Raw)"
  by (induction n) auto

lemma vector_inv_vec_iff [simp]: "vector_inv (vec xs k)"
  by (simp add: vector_inv_def vec_def)

lemma elements_vec [simp]: "elements (vec xs k) = xs"
  by (simp add: elements_def vec_def)

lemma size_vec [simp]: "size' (vec xs k) = length xs"
  by (simp add: vec_def)

lemma capacity_vec [simp]: "capacity' (data' (vec xs k)) = length xs + k"
  by (simp add: vec_def)

lemma buffer_vec [simp]: "buffer' (data' (vec xs k)) = map Live xs @ replicate k Raw"
  by (simp add: vec_def)

lemma Vector_at_vec: "i < length xs \<Longrightarrow> Vector_at (vec xs k) i = Some (xs ! i)"
  by (simp add: Vector_at_def RawMemory_index_def object_at_def nth_append)

lemma Deallocate_Raw [simp]:
  "Deallocate (replicate n Raw) w = (if n = 0 then w else log_op Delete w)"
  by (simp add: Deallocate_def)

lemma RawMemory_new_cases:
  "\<exists>w'. follows w w' \<and>
     (RawMemory_new n w = Ok \<lparr>buffer' = replicate n Raw, capacity' = n\<rparr> w' \<and>
        trace w' = trace w @ (if n = 0 then [] else [New n])
      \<or> RawMemory_new n w = Thrown w' \<and> \<not> no_faults w)"
proof (cases "n = 0")
  case True
  then show ?thesis by (intro exI [of _ w]) (simp add: RawMemory_new_def Allocate_def)
next
  case False
  show ?thesis
  proof (cases rule: attempt_cases [of True w])
    case (ok w')
    with False show ?thesis
      by (intro exI [of _ "log_op (New n) w'"]) (simp add: RawMemory_new_def Allocate_def)
  next
    case (thrown w')
    with False show ?thesis
      by (intro exI [of _ w']) (simp add: RawMemory_new_def Allocate_def)
  qed
qed

lemma std_swap_eq [simp]: "std_swap a b w = ((b, a), w)"
  by (simp add: std_swap_def RawMemory_move_assign_def RawMemory_move_def RawMemory_Swap_def
      RawMemory_dtor_def Deallocate_def)

lemma Vector_Swap_eq [simp]: "Vector_Swap a b w = ((b, a), w)"
  by (simp add: Vector_Swap_def)

lemma ElementsMigration_cases:
  "\<exists>w'. follows w w' \<and>
     (ElementsMigration tr \<lparr>buffer' = map Live xs @ rest, capacity' = c\<rparr>
          \<lparr>buffer' = replicate (length xs) Raw @ post, capacity' = c'\<rparr> (length xs) w =
        Ok () ((\<lparr>buffer' = map Live xs @ post, capacity' = c'\<rparr>,
                \<lparr>buffer' = replicate (length xs) Raw @ rest, capacity' = c\<rparr>), w') \<and>
        trace w' = trace w @ replicate (length xs) (relocation_ctor tr) @ replicate (length xs) Dtor
      \<or> (\<exists>src. ElementsMigration tr \<lparr>buffer' = map Live xs @ rest, capacity' = c\<rparr>
          \<lparr>buffer' = replicate (length xs) Raw @ post, capacity' = c'\<rparr> (length xs) w =
        Thrown ((\<lparr>buffer' = src, capacity' = c\<rparr>,
                \<lparr>buffer' = replicate (length xs) Raw @ post, capacity' = c'\<rparr>), w') \<and>
        (is_copy_constructible tr \<longrightarrow> src = map Live xs @ rest)) \<and>
        \<not> no_faults w \<and> \<not> is_nothrow_move_constructible tr)"
proof (cases "is_nothrow_move_constructible tr \<or> \<not> is_copy_constructible tr")
  case True
  from uninitialized_move_loop_cases [of 0 "[]" "[]" w tr "[]" xs rest post]
  obtain w1 where w1: "follows w w1"
    and r: "uninitialized_move_n tr (map Live xs @ rest) 0 (length xs) 0
          (replicate (length xs) Raw @ post) w =
          Ok () ((map Live (map (moved_from tr) xs) @ rest, map Live xs @ post), w1) \<and>
        trace w1 = trace w @ replicate (length xs) MoveCtor
      \<or> (\<exists>src'. uninitialized_move_n tr (map Live xs @ rest) 0 (length xs) 0
          (replicate (length xs) Raw @ post) w =
          Thrown ((src', replicate (length xs) Raw @ post), w1)) \<and>
        \<not> no_faults w \<and> \<not> is_nothrow_move_constructible tr"
    by (auto simp: uninitialized_move_n_def)
  from r show ?thesis
  proof (elim disjE conjE exE)
    assume a: "uninitialized_move_n tr (map Live xs @ rest) 0 (length xs) 0
          (replicate (length xs) Raw @ post) w =
          Ok () ((map Live (map (moved_from tr) xs) @ rest, map Live xs @ post), w1)"
      and t: "trace w1 = trace w @ replicate (length xs) MoveCtor"
    from destroy_n_live [of "[]" "map (moved_from tr) xs" rest w1] a t True w1 show ?thesis
      by (intro exI [of _ "w1\<lparr>trace := trace w1 @ replicate (length xs) Dtor\<rparr>"])
        (simp add: ElementsMigration_def RawMemory_Swap_def relocation_ctor_def)
  next
    fix src'
    assume "uninitialized_move_n tr (map Live xs @ rest) 0 (length xs) 0
          (replicate (length xs) Raw @ post) w =
          Thrown ((src', replicate (length xs) Raw @ post), w1)"
      "\<not> no_faults w" "\<not> is_nothrow_move_constructible tr"
    with True w1 show ?thesis
      by (intro exI [of _ w1]) (simp add: ElementsMigration_def)
  qed
next
  case False
  from uninitialized_copy_loop_cases [of 0 "[]" "[]" w xs rest "[]" post]
  obtain w1 where w1: "follows w w1"
    and r: "uninitialized_copy_n (map Live xs @ rest) 0 (length xs) 0
          (replicate (length xs) Raw @ post) w = Ok () (map Live xs @ post, w1) \<and>
        trace w1 = trace w @ replicate (length xs) CopyCtor
      \<or> uninitialized_copy_n (map Live xs @ rest) 0 (length xs) 0
          (replicate (length xs) Raw @ post) w =
          Thrown (replicate (length xs) Raw @ post, w1) \<and> \<not> no_faults w"
    by (auto simp: uninitialized_copy_n_def)
  from r show ?thesis
  proof (elim disjE conjE)
    assume a: "uninitialized_copy_n (map Live xs @ rest) 0 (length xs) 0
          (replicate (length xs) Raw @ post) w = Ok () (map Live xs @ post, w1)"
      and t: "trace w1 = trace w @ replicate (length xs) CopyCtor"
    from destroy_n_live [of "[]" xs rest w1] a t False w1 show ?thesis
      by (intro exI [of _ "w1\<lparr>trace := trace w1 @ replicate (length xs) Dtor\<rparr>"])
        (simp add: ElementsMigration_def RawMemory_Swap_def relocation_ctor_def keep_source_def)
  next
    assume "uninitialized_copy_n (map Live xs @ rest) 0 (length xs) 0
          (replicate (length xs) Raw @ post) w =
          Thrown (replicate (length xs) Raw @ post, w1)" "\<not> no_faults w"
    with False w1 show ?thesis
      by (intro exI [of _ w1]) (simp add: ElementsMigration_def keep_source_def)
  qed
qed


lemma replicate_Raw_split: "m \<le> n \<Longrightarrow> replicate n Raw = replicate m Raw @ replicate (n - m) Raw"
  by (simp add: replicate_add [symmetric])



lemma EmplaceBack_spare_cases:
  "\<exists>w'. follows w w' \<and>
     (EmplaceBack tr a (vec xs (Suc k)) w = Ok (length xs) (vec (xs @ [ctor_value a]) k, w') \<and>
        trace w' = trace w @ [ctor_kind a]
      \<or> EmplaceBack tr a (vec xs (Suc k)) w = Thrown (vec xs (Suc k), w') \<and> \<not> no_faults w)"
proof (cases rule: construct_at_Raw [of "ctor_kind a" "ctor_may_throw tr a" "ctor_value a"
      "map Live xs" "replicate k Raw" w])
  case (ok w')
  then show ?thesis
    by (intro exI [of _ w'])
      (simp add: EmplaceBack_def Capacity_def vec_def set_buffer_def RawMemory_index_def)
next
  case (thrown w')
  then show ?thesis
    by (intro exI [of _ w'])
      (simp add: EmplaceBack_def Capacity_def vec_def set_buffer_def)
qed

lemma EmplaceBack_full_cases:
  fixes xs :: "'a list"
  defines "c \<equiv> (if xs = [] then Suc 0 else length xs * 2)"
  shows "\<exists>w'. (EmplaceBack tr a (vec xs 0) w =
          Ok (length xs) (vec (xs @ [ctor_value a]) (c - length xs - 1), w') \<and>
        follows w w' \<and>
        trace w' = trace w @ New c # ctor_kind a # replicate (length xs) (relocation_ctor tr)
          @ replicate (length xs) Dtor @ (if length xs = 0 then [] else [Delete])
      \<or> (\<exists>v'. EmplaceBack tr a (vec xs 0) w = Thrown (v', w') \<and>
            (is_nothrow_move_constructible tr \<or> is_copy_constructible tr \<longrightarrow> v' = vec xs 0)) \<and>
         \<not> no_faults w)"
proof -
  have c: "length xs < c" "c \<noteq> 0" by (auto simp: c_def)
  have sz: "(if size' (vec xs 0) = 0 then 1 else size' (vec xs 0) * 2) = c"
    by (simp add: c_def)
  let ?post = "replicate (c - length xs - 1) Raw"
  from c have split: "replicate c Raw = replicate (length xs) Raw @ Raw # ?post"
    by (metis Suc_diff_Suc diff_Suc_1 replicate_Raw_split less_imp_le replicate_Suc
        diff_diff_left plus_1_eq_Suc)
  from RawMemory_new_cases [of w c] obtain w1 where w1: "follows w w1"
    and r1: "RawMemory_new c w = Ok \<lparr>buffer' = replicate c Raw, capacity' = c\<rparr> w1 \<and>
        trace w1 = trace w @ (if c = 0 then [] else [New c])
      \<or> RawMemory_new c w = Thrown w1 \<and> \<not> no_faults w"
    by blast
  from r1 show ?thesis
  proof (elim disjE conjE)
    assume "RawMemory_new c w = Thrown w1" "\<not> no_faults w"
    then show ?thesis
      unfolding EmplaceBack_def sz by (intro exI [of _ w1]) (simp add: Capacity_def)
  next
    assume "RawMemory_new c w = Ok \<lparr>buffer' = replicate c Raw, capacity' = c\<rparr> w1"
      and t1: "trace w1 = trace w @ (if c = 0 then [] else [New c])"
    then have a1: "RawMemory_new c w =
        Ok \<lparr>buffer' = replicate (length xs) Raw @ Raw # ?post, capacity' = c\<rparr> w1"
      unfolding split by simp
    show ?thesis
    proof (cases rule: construct_at_Raw [of "ctor_kind a" "ctor_may_throw tr a" "ctor_value a"
          "replicate (length xs) Raw" ?post w1])
      case (thrown w2)
      have "Deallocate (replicate (length xs) Raw @ Raw # ?post) w2 = log_op Delete w2"
        using Deallocate_Raw [of c w2] c unfolding split by simp
      with thrown a1 c have "EmplaceBack tr a (vec xs 0) w = Thrown (vec xs 0, log_op Delete w2)"
        unfolding EmplaceBack_def sz
        by (simp add: Capacity_def RawMemory_plus_def RawMemory_dtor_def)
      with thrown w1 show ?thesis
        by (intro exI [of _ "log_op Delete w2"]) (auto dest: follows_no_faults)
    next
      case (ok w2)
      from ElementsMigration_cases [of w2 tr xs "[]" "length xs" "Live (ctor_value a) # ?post" c]
      obtain w3 where w3: "follows w2 w3"
        and r3: "ElementsMigration tr \<lparr>buffer' = map Live xs, capacity' = length xs\<rparr>
            \<lparr>buffer' = replicate (length xs) Raw @ Live (ctor_value a) # ?post, capacity' = c\<rparr>
            (length xs) w2 =
            Ok () ((\<lparr>buffer' = map Live xs @ Live (ctor_value a) # ?post, capacity' = c\<rparr>,
                    \<lparr>buffer' = replicate (length xs) Raw, capacity' = length xs\<rparr>), w3) \<and>
            trace w3 = trace w2 @ replicate (length xs) (relocation_ctor tr)
              @ replicate (length xs) Dtor
          \<or> (\<exists>src. ElementsMigration tr \<lparr>buffer' = map Live xs, capacity' = length xs\<rparr>
            \<lparr>buffer' = replicate (length xs) Raw @ Live (ctor_value a) # ?post, capacity' = c\<rparr>
            (length xs) w2 =
            Thrown ((\<lparr>buffer' = src, capacity' = length xs\<rparr>,
                    \<lparr>buffer' = replicate (length xs) Raw @ Live (ctor_value a) # ?post,
                      capacity' = c\<rparr>), w3) \<and>
            (is_copy_constructible tr \<longrightarrow> src = map Live xs)) \<and>
            \<not> no_faults w2 \<and> \<not> is_nothrow_move_constructible tr"
        by auto
      from w1 ok w3 have f: "follows w w3" by (blast intro: follows_trans)
      from w1 ok have nf: "\<not> no_faults w2 \<Longrightarrow> \<not> no_faults w" by (blast dest: follows_no_faults)
      from r3 show ?thesis
      proof (elim disjE conjE exE)
        assume a3: "ElementsMigration tr \<lparr>buffer' = map Live xs, capacity' = length xs\<rparr>
            \<lparr>buffer' = replicate (length xs) Raw @ Live (ctor_value a) # ?post, capacity' = c\<rparr>
            (length xs) w2 =
            Ok () ((\<lparr>buffer' = map Live xs @ Live (ctor_value a) # ?post, capacity' = c\<rparr>,
                    \<lparr>buffer' = replicate (length xs) Raw, capacity' = length xs\<rparr>), w3)"
          and t3: "trace w3 = trace w2 @ replicate (length xs) (relocation_ctor tr)
              @ replicate (length xs) Dtor"
        let ?w = "if length xs = 0 then w3 else log_op Delete w3"
        from c have cap: "Suc (length xs + (c - Suc (length xs))) = c" by simp
        from a1 ok a3 c cap
        have "EmplaceBack tr a (vec xs 0) w =
            Ok (length xs) (vec (xs @ [ctor_value a]) (c - length xs - 1), ?w)"
          unfolding EmplaceBack_def sz
          by (simp add: Capacity_def RawMemory_plus_def
              RawMemory_dtor_def RawMemory_index_def vec_def)
        moreover from t1 ok t3 c have "trace ?w = trace w @ New c # ctor_kind a
            # replicate (length xs) (relocation_ctor tr)
            @ replicate (length xs) Dtor @ (if length xs = 0 then [] else [Delete])"
          by simp
        moreover from f have "follows w ?w" by simp
        ultimately show ?thesis by blast
      next
        fix src
        assume a3: "ElementsMigration tr \<lparr>buffer' = map Live xs, capacity' = length xs\<rparr>
            \<lparr>buffer' = replicate (length xs) Raw @ Live (ctor_value a) # ?post, capacity' = c\<rparr>
            (length xs) w2 =
            Thrown ((\<lparr>buffer' = src, capacity' = length xs\<rparr>,
                    \<lparr>buffer' = replicate (length xs) Raw @ Live (ctor_value a) # ?post,
                      capacity' = c\<rparr>), w3)"
          and src: "is_copy_constructible tr \<longrightarrow> src = map Live xs"
          and nf2: "\<not> no_faults w2" and nt: "\<not> is_nothrow_move_constructible tr"
        from a1 ok a3 c obtain w4 where "EmplaceBack tr a (vec xs 0) w =
            Thrown ((vec xs 0)\<lparr>data' := \<lparr>buffer' = src, capacity' = length xs\<rparr>\<rparr>, w4)"
          unfolding EmplaceBack_def sz
          by (simp add: Capacity_def RawMemory_plus_def vec_def)
        moreover from src nt have "is_nothrow_move_constructible tr \<or> is_copy_constructible tr \<longrightarrow>
            (vec xs 0)\<lparr>data' := \<lparr>buffer' = src, capacity' = length xs\<rparr>\<rparr> = vec xs 0"
          by (simp add: vec_def)
        ultimately show ?thesis using nf nf2 by blast
      qed
    qed
  qed
qed

lemma move_two_parts:
  "\<exists>w'. follows w w' \<and>
     ((case uninitialized_move_n tr (map Live ys @ map Live zs) 0 (length ys) 0
              (replicate (length ys) Raw @ Live x # replicate (length zs) Raw @ post) w of
         Ok _ ((src, dst), w3) \<Rightarrow>
           uninitialized_move_n tr src (length ys) (length zs) (Suc (length ys)) dst w3
       | Thrown s \<Rightarrow> Thrown s
       | Abort r \<Rightarrow> Abort r) =
       Ok () ((map Live (map (moved_from tr) ys) @ map Live (map (moved_from tr) zs),
               map Live ys @ Live x # map Live zs @ post), w') \<and>
       trace w' = trace w @ replicate (length ys) MoveCtor @ replicate (length zs) MoveCtor
     \<or> (\<exists>s. (case uninitialized_move_n tr (map Live ys @ map Live zs) 0 (length ys) 0
              (replicate (length ys) Raw @ Live x # replicate (length zs) Raw @ post) w of
         Ok _ ((src, dst), w3) \<Rightarrow>
           uninitialized_move_n tr src (length ys) (length zs) (Suc (length ys)) dst w3
       | Thrown s \<Rightarrow> Thrown s
       | Abort r \<Rightarrow> Abort r) = Thrown (s, w')) \<and>
       \<not> no_faults w \<and> \<not> is_nothrow_move_constructible tr)"
proof -
  let ?post1 = "Live x # replicate (length zs) Raw @ post"
  from uninitialized_move_loop_cases [of 0 "[]" "[]" w tr "[]" ys "map Live zs" ?post1]
  obtain w1 where w1: "follows w w1"
    and r1: "uninitialized_move_n tr (map Live ys @ map Live zs) 0 (length ys) 0
          (replicate (length ys) Raw @ ?post1) w =
          Ok () ((map Live (map (moved_from tr) ys) @ map Live zs, map Live ys @ ?post1), w1) \<and>
        trace w1 = trace w @ replicate (length ys) MoveCtor
      \<or> (\<exists>src'. uninitialized_move_n tr (map Live ys @ map Live zs) 0 (length ys) 0
          (replicate (length ys) Raw @ ?post1) w =
          Thrown ((src', replicate (length ys) Raw @ ?post1), w1)) \<and>
        \<not> no_faults w \<and> \<not> is_nothrow_move_constructible tr"
    by (auto simp: uninitialized_move_n_def)
  from r1 show ?thesis
  proof (elim disjE conjE exE)
    fix src'
    assume "uninitialized_move_n tr (map Live ys @ map Live zs) 0 (length ys) 0
          (replicate (length ys) Raw @ ?post1) w =
          Thrown ((src', replicate (length ys) Raw @ ?post1), w1)"
      "\<not> no_faults w" "\<not> is_nothrow_move_constructible tr"
    with w1 show ?thesis by (intro exI [of _ w1]) simp
  next
    assume a1: "uninitialized_move_n tr (map Live ys @ map Live zs) 0 (length ys) 0
          (replicate (length ys) Raw @ ?post1) w =
          Ok () ((map Live (map (moved_from tr) ys) @ map Live zs, map Live ys @ ?post1), w1)"
      and t1: "trace w1 = trace w @ replicate (length ys) MoveCtor"
    from uninitialized_move_loop_cases [of "length ys" "[]" "map Live (map (moved_from tr) ys)"
        w1 tr "map Live ys @ [Live x]" zs "[]" post]
    obtain w2 where w2: "follows w1 w2"
      and r2: "uninitialized_move_n tr (map Live (map (moved_from tr) ys) @ map Live zs)
            (length ys) (length zs) (Suc (length ys))
            (map Live ys @ Live x # replicate (length zs) Raw @ post) w1 =
          Ok () ((map Live (map (moved_from tr) ys) @ map Live (map (moved_from tr) zs),
                  map Live ys @ Live x # map Live zs @ post), w2) \<and>
          trace w2 = trace w1 @ replicate (length zs) MoveCtor
        \<or> (\<exists>src'. uninitialized_move_n tr (map Live (map (moved_from tr) ys) @ map Live zs)
            (length ys) (length zs) (Suc (length ys))
            (map Live ys @ Live x # replicate (length zs) Raw @ post) w1 =
          Thrown ((src', map Live ys @ Live x # replicate (length zs) Raw @ post), w2)) \<and>
          \<not> no_faults w1 \<and> \<not> is_nothrow_move_constructible tr"
      by (auto simp: uninitialized_move_n_def)
    from w1 w2 have f: "follows w w2" by (rule follows_trans)
    from w1 have nf: "\<not> no_faults w1 \<Longrightarrow> \<not> no_faults w" by (blast dest: follows_no_faults)
    from r2 a1 t1 f nf show ?thesis
      by (intro exI [of _ w2]) auto
  qed
qed

lemma copy_two_parts:
  "\<exists>w'. follows w w' \<and>
     ((case uninitialized_copy_n (map Live ys @ map Live zs) 0 (length ys) 0
              (replicate (length ys) Raw @ Live x # replicate (length zs) Raw @ post) w of
         Ok _ (dst, w3) \<Rightarrow>
           keep_source (map Live ys @ map Live zs)
             (uninitialized_copy_n (map Live ys @ map Live zs) (length ys) (length zs)
                (Suc (length ys)) dst w3)
       | Thrown (dst, w3) \<Rightarrow> Thrown ((map Live ys @ map Live zs, dst), w3)
       | Abort r \<Rightarrow> Abort r) =
       Ok () ((map Live ys @ map Live zs, map Live ys @ Live x # map Live zs @ post), w') \<and>
       trace w' = trace w @ replicate (length ys) CopyCtor @ replicate (length zs) CopyCtor
     \<or> (\<exists>dst. (case uninitialized_copy_n (map Live ys @ map Live zs) 0 (length ys) 0
              (replicate (length ys) Raw @ Live x # replicate (length zs) Raw @ post) w of
         Ok _ (dst, w3) \<Rightarrow>
           keep_source (map Live ys @ map Live zs)
             (uninitialized_copy_n (map Live ys @ map Live zs) (length ys) (length zs)
                (Suc (length ys)) dst w3)
       | Thrown (dst, w3) \<Rightarrow> Thrown ((map Live ys @ map Live zs, dst), w3)
       | Abort r \<Rightarrow> Abort r) = Thrown ((map Live ys @ map Live zs, dst), w')) \<and>
       \<not> no_faults w)"
proof -
  let ?post1 = "Live x # replicate (length zs) Raw @ post"
  from uninitialized_copy_loop_cases [of 0 "[]" "[]" w ys "map Live zs" "[]" ?post1]
  obtain w1 where w1: "follows w w1"
    and r1: "uninitialized_copy_n (map Live ys @ map Live zs) 0 (length ys) 0
          (replicate (length ys) Raw @ ?post1) w = Ok () (map Live ys @ ?post1, w1) \<and>
        trace w1 = trace w @ replicate (length ys) CopyCtor
      \<or> uninitialized_copy_n (map Live ys @ map Live zs) 0 (length ys) 0
          (replicate (length ys) Raw @ ?post1) w =
          Thrown (replicate (length ys) Raw @ ?post1, w1) \<and> \<not> no_faults w"
    by (auto simp: uninitialized_copy_n_def)
  from r1 show ?thesis
  proof (elim disjE conjE)
    assume "uninitialized_copy_n (map Live ys @ map Live zs) 0 (length ys) 0
          (replicate (length ys) Raw @ ?post1) w =
          Thrown (replicate (length ys) Raw @ ?post1, w1)" "\<not> no_faults w"
    with w1 show ?thesis by (intro exI [of _ w1]) simp
  next
    assume a1: "uninitialized_copy_n (map Live ys @ map Live zs) 0 (length ys) 0
          (replicate (length ys) Raw @ ?post1) w = Ok () (map Live ys @ ?post1, w1)"
      and t1: "trace w1 = trace w @ replicate (length ys) CopyCtor"
    from uninitialized_copy_loop_cases [of "length ys" "[]" "map Live ys"
        w1 zs "[]" "map Live ys @ [Live x]" post]
    obtain w2 where w2: "follows w1 w2"
      and r2: "uninitialized_copy_n (map Live ys @ map Live zs)
            (length ys) (length zs) (Suc (length ys))
            (map Live ys @ Live x # replicate (length zs) Raw @ post) w1 =
          Ok () (map Live ys @ Live x # map Live zs @ post, w2) \<and>
          trace w2 = trace w1 @ replicate (length zs) CopyCtor
        \<or> uninitialized_copy_n (map Live ys @ map Live zs)
            (length ys) (length zs) (Suc (length ys))
            (map Live ys @ Live x # replicate (length zs) Raw @ post) w1 =
          Thrown (map Live ys @ Live x # replicate (length zs) Raw @ post, w2) \<and>
          \<not> no_faults w1"
      by (auto simp: uninitialized_copy_n_def)
    from w1 w2 have f: "follows w w2" by (rule follows_trans)
    from w1 have nf: "\<not> no_faults w1 \<Longrightarrow> \<not> no_faults w" by (blast dest: follows_no_faults)
    from r2 a1 t1 f nf show ?thesis
      by (intro exI [of _ w2]) (auto simp: keep_source_def)
  qed
qed


lemma Emplace_full_cases:
  fixes ys zs :: "'a list"
  defines "n \<equiv> length ys + length zs"
  defines "c \<equiv> (if ys = [] \<and> zs = [] then Suc 0 else n * 2)"
  assumes zs: "zs \<noteq> []"
  shows "\<exists>w'. (Emplace tr (length ys) a (vec (ys @ zs) 0) w =
          Ok (length ys) (vec (ys @ ctor_value a # zs) (c - n - 1), w') \<and>
        follows w w' \<and>
        trace w' = trace w @ New c # ctor_kind a # replicate n (relocation_ctor tr)
          @ replicate n Dtor @ [Delete]
      \<or> (\<exists>v'. Emplace tr (length ys) a (vec (ys @ zs) 0) w = Thrown (v', w') \<and>
            (is_nothrow_move_constructible tr \<or> is_copy_constructible tr
               \<longrightarrow> v' = vec (ys @ zs) 0)) \<and>
         \<not> no_faults w)"
proof -
  let ?v = "vec (ys @ zs) 0"
  let ?x = "ctor_value a"
  define m where "m = c - n - 1"
  from zs have c: "c = Suc n + m" "n \<noteq> 0" "c \<noteq> 0" by (auto simp: c_def n_def m_def)
  have sz: "(if size' ?v = 0 then 1 else size' ?v * 2) = c"
    by (simp add: c_def n_def)
  have split: "replicate c Raw = replicate (length ys) Raw @ Raw # replicate (length zs) Raw
      @ replicate m Raw"
  proof -
    from c have "c = length ys + Suc (length zs + m)" by (simp add: n_def)
    then show ?thesis by (simp only: replicate_add replicate_Suc)
  qed
  have pos: "\<not> \<not> length ys \<le> size' ?v" "length ys \<noteq> size' ?v" "size' ?v = Capacity ?v"
    using zs by (simp_all add: Capacity_def)
  have e: "size' ?v = length ys + length zs" "length ys + length zs - length ys = length zs"
    "length ys + 1 = Suc (length ys)" "buffer' (data' ?v) = map Live ys @ map Live zs"
    "length ys + length zs + 1 = Suc (length ys + length zs)"
    by simp_all
  have E: "Emplace tr (length ys) a ?v w =
      (case RawMemory_new c w of
            Thrown w1 \<Rightarrow> Thrown (?v, w1)
          | Abort r \<Rightarrow> Abort r
          | Ok new_data w1 \<Rightarrow>
             (case construct_at (ctor_kind a) (ctor_may_throw tr a) (ctor_value a) (length ys)
                     (buffer' new_data) w1 of
                Thrown (cs, w2) \<Rightarrow> Thrown (?v, RawMemory_dtor (new_data\<lparr>buffer' := cs\<rparr>) w2)
              | Abort r \<Rightarrow> Abort r
              | Ok _ (cs, w2) \<Rightarrow>
                 (case
                    (if is_nothrow_move_constructible tr \<or> \<not> is_copy_constructible tr
                     then (case uninitialized_move_n tr ((map Live ys @ map Live zs)) 0 (length ys) 0 cs w2 of
                         Ok _ ((src, dst), w3) \<Rightarrow>
                           uninitialized_move_n tr src (length ys) (length zs)
                             (Suc (length ys)) dst w3
                       | Thrown s \<Rightarrow> Thrown s
                       | Abort r \<Rightarrow> Abort r)
                     else (case uninitialized_copy_n ((map Live ys @ map Live zs)) 0 (length ys) 0 cs w2 of
                         Ok _ (dst, w3) \<Rightarrow>
                           keep_source ((map Live ys @ map Live zs))
                             (uninitialized_copy_n ((map Live ys @ map Live zs)) (length ys)
                                (length zs) (Suc (length ys)) dst w3)
                       | Thrown (dst, w3) \<Rightarrow> Thrown (((map Live ys @ map Live zs), dst), w3)
                       | Abort r \<Rightarrow> Abort r)) of
                    Ok _ ((src, dst), w4) \<Rightarrow>
                      (case destroy_n 0 (length ys + length zs) src w4 of
                         Ok _ (src', w5) \<Rightarrow>
                           (let (d, nd) = RawMemory_Swap ((data' ?v)\<lparr>buffer' := src'\<rparr>)
                                            (new_data\<lparr>buffer' := dst\<rparr>)
                            in Ok (length ys) (\<lparr>data' = d, size' = Suc (length ys + length zs)\<rparr>, RawMemory_dtor nd w5))
                       | Thrown (src', w5) \<Rightarrow>
                           Thrown (set_buffer ?v src', RawMemory_dtor (new_data\<lparr>buffer' := dst\<rparr>) w5)
                       | Abort r \<Rightarrow> Abort r)
                  | Thrown ((src, dst), w4) \<Rightarrow>
                      Thrown (set_buffer ?v src, RawMemory_dtor (new_data\<lparr>buffer' := dst\<rparr>) w4)
                  | Abort r \<Rightarrow> Abort r)))"
    unfolding Emplace_def Let_def sz if_not_P [OF pos(1)] if_not_P [OF pos(2)] if_P [OF pos(3)]
    unfolding e ..
  from RawMemory_new_cases [of w c] obtain w1 where w1: "follows w w1"
    and r1: "RawMemory_new c w = Ok \<lparr>buffer' = replicate c Raw, capacity' = c\<rparr> w1 \<and>
        trace w1 = trace w @ (if c = 0 then [] else [New c])
      \<or> RawMemory_new c w = Thrown w1 \<and> \<not> no_faults w"
    by blast
  from r1 show ?thesis
  proof (elim disjE conjE)
    assume "RawMemory_new c w = Thrown w1" "\<not> no_faults w"
    then show ?thesis
      unfolding E by (intro exI [of _ w1]) simp
  next
    assume "RawMemory_new c w = Ok \<lparr>buffer' = replicate c Raw, capacity' = c\<rparr> w1"
      and t1: "trace w1 = trace w @ (if c = 0 then [] else [New c])"
    then have a1: "RawMemory_new c w =
        Ok \<lparr>buffer' = replicate (length ys) Raw @ Raw # replicate (length zs) Raw @ replicate m Raw,
             capacity' = c\<rparr> w1"
      unfolding split by simp
    show ?thesis
    proof (cases rule: construct_at_Raw [of "ctor_kind a" "ctor_may_throw tr a" ?x
          "replicate (length ys) Raw" "replicate (length zs) Raw @ replicate m Raw" w1])
      case (thrown w2)
      have "Deallocate (replicate (length ys) Raw @ Raw # replicate (length zs) Raw
          @ replicate m Raw) w2 = log_op Delete w2"
        using Deallocate_Raw [of c w2] c unfolding split by simp
      with thrown a1 have "Emplace tr (length ys) a ?v w = Thrown (?v, log_op Delete w2)"
        unfolding E by (simp add: RawMemory_dtor_def)
      with thrown w1 show ?thesis
        by (intro exI [of _ "log_op Delete w2"]) (auto dest: follows_no_faults)
    next
      case (ok w2)
      from w1 ok have f2: "follows w w2" by (blast intro: follows_trans)
      from f2 have nf: "\<not> no_faults w2 \<Longrightarrow> \<not> no_faults w" by (blast dest: follows_no_faults)
      show ?thesis
      proof (cases "is_nothrow_move_constructible tr \<or> \<not> is_copy_constructible tr")
        case True
        from move_two_parts [of w2 tr ys zs ?x "replicate m Raw"]
        obtain w3 where w3: "follows w2 w3" and r3:
          "(case uninitialized_move_n tr (map Live ys @ map Live zs) 0 (length ys) 0
              (replicate (length ys) Raw @ Live ?x # replicate (length zs) Raw @ replicate m Raw) w2 of
             Ok _ ((src, dst), w3) \<Rightarrow>
               uninitialized_move_n tr src (length ys) (length zs) (Suc (length ys)) dst w3
           | Thrown s \<Rightarrow> Thrown s
           | Abort r \<Rightarrow> Abort r) =
           Ok () ((map Live (map (moved_from tr) ys) @ map Live (map (moved_from tr) zs),
                   map Live ys @ Live ?x # map Live zs @ replicate m Raw), w3) \<and>
           trace w3 = trace w2 @ replicate (length ys) MoveCtor @ replicate (length zs) MoveCtor
         \<or> (\<exists>s. (case uninitialized_move_n tr (map Live ys @ map Live zs) 0 (length ys) 0
              (replicate (length ys) Raw @ Live ?x # replicate (length zs) Raw @ replicate m Raw) w2 of
             Ok _ ((src, dst), w3) \<Rightarrow>
               uninitialized_move_n tr src (length ys) (length zs) (Suc (length ys)) dst w3
           | Thrown s \<Rightarrow> Thrown s
           | Abort r \<Rightarrow> Abort r) = Thrown (s, w3)) \<and>
           \<not> no_faults w2 \<and> \<not> is_nothrow_move_constructible tr"
          by blast
        from r3 show ?thesis
        proof (elim disjE conjE exE)
          fix s
          assume "(case uninitialized_move_n tr (map Live ys @ map Live zs) 0 (length ys) 0
              (replicate (length ys) Raw @ Live ?x # replicate (length zs) Raw @ replicate m Raw) w2 of
             Ok _ ((src, dst), w3) \<Rightarrow>
               uninitialized_move_n tr src (length ys) (length zs) (Suc (length ys)) dst w3
           | Thrown s \<Rightarrow> Thrown s
           | Abort r \<Rightarrow> Abort r) = Thrown (s, w3)"
            and nf2: "\<not> no_faults w2" and nt: "\<not> is_nothrow_move_constructible tr"
          with a1 ok True have "Emplace tr (length ys) a ?v w =
              Thrown (set_buffer ?v (fst s),
                RawMemory_dtor \<lparr>buffer' = snd s, capacity' = c\<rparr> w3)"
            unfolding E by (cases s) simp
          with nf nf2 nt True show ?thesis by blast
        next
          assume a3: "(case uninitialized_move_n tr (map Live ys @ map Live zs) 0 (length ys) 0
              (replicate (length ys) Raw @ Live ?x # replicate (length zs) Raw @ replicate m Raw) w2 of
             Ok _ ((src, dst), w3) \<Rightarrow>
               uninitialized_move_n tr src (length ys) (length zs) (Suc (length ys)) dst w3
           | Thrown s \<Rightarrow> Thrown s
           | Abort r \<Rightarrow> Abort r) =
           Ok () ((map Live (map (moved_from tr) ys) @ map Live (map (moved_from tr) zs),
                   map Live ys @ Live ?x # map Live zs @ replicate m Raw), w3)"
            and t3: "trace w3 = trace w2 @ replicate (length ys) MoveCtor
                @ replicate (length zs) MoveCtor"
          let ?w4 = "w3\<lparr>trace := trace w3 @ replicate n Dtor\<rparr>"
          have d: "destroy_n 0 (length ys + length zs)
              (map Live (map (moved_from tr) ys) @ map Live (map (moved_from tr) zs)) w3 =
              Ok () (replicate (length ys) Raw @ replicate (length zs) Raw, ?w4)"
            using destroy_n_live [of "[]" "map (moved_from tr) ys @ map (moved_from tr) zs" "[]" w3]
            by (simp add: n_def replicate_add)
          have dl: "Deallocate (replicate (length ys) Raw @ replicate (length zs) Raw) ?w4 =
              log_op Delete ?w4"
            using Deallocate_Raw [of n ?w4] c by (simp add: n_def replicate_add)
          from a1 ok a3 True d dl c
          have "Emplace tr (length ys) a ?v w =
              Ok (length ys) (vec (ys @ ?x # zs) m, log_op Delete ?w4)"
            unfolding E by (simp add: RawMemory_Swap_def RawMemory_dtor_def vec_def n_def)
          moreover from t1 ok t3 c True
          have "trace (log_op Delete ?w4) = trace w @ New c # ctor_kind a
              # replicate n (relocation_ctor tr) @ replicate n Dtor @ [Delete]"
            by (simp add: relocation_ctor_def n_def replicate_add)
          moreover from f2 w3 have "follows w (log_op Delete ?w4)"
            by (auto intro: follows_trans)
          ultimately show ?thesis unfolding m_def by blast
        qed
      next
        case False
        from copy_two_parts [of w2 ys zs ?x "replicate m Raw"]
        obtain w3 where w3: "follows w2 w3" and r3:
          "(case uninitialized_copy_n (map Live ys @ map Live zs) 0 (length ys) 0
              (replicate (length ys) Raw @ Live ?x # replicate (length zs) Raw @ replicate m Raw) w2 of
             Ok _ (dst, w3) \<Rightarrow>
               keep_source (map Live ys @ map Live zs)
                 (uninitialized_copy_n (map Live ys @ map Live zs) (length ys) (length zs)
                    (Suc (length ys)) dst w3)
           | Thrown (dst, w3) \<Rightarrow> Thrown ((map Live ys @ map Live zs, dst), w3)
           | Abort r \<Rightarrow> Abort r) =
           Ok () ((map Live ys @ map Live zs,
                   map Live ys @ Live ?x # map Live zs @ replicate m Raw), w3) \<and>
           trace w3 = trace w2 @ replicate (length ys) CopyCtor @ replicate (length zs) CopyCtor
         \<or> (\<exists>dst. (case uninitialized_copy_n (map Live ys @ map Live zs) 0 (length ys) 0
              (replicate (length ys) Raw @ Live ?x # replicate (length zs) Raw @ replicate m Raw) w2 of
             Ok _ (dst, w3) \<Rightarrow>
               keep_source (map Live ys @ map Live zs)
                 (uninitialized_copy_n (map Live ys @ map Live zs) (length ys) (length zs)
                    (Suc (length ys)) dst w3)
           | Thrown (dst, w3) \<Rightarrow> Thrown ((map Live ys @ map Live zs, dst), w3)
           | Abort r \<Rightarrow> Abort r) = Thrown ((map Live ys @ map Live zs, dst), w3)) \<and>
           \<not> no_faults w2"
          by blast
        from r3 show ?thesis
        proof (elim disjE conjE exE)
          fix dst
          assume "(case uninitialized_copy_n (map Live ys @ map Live zs) 0 (length ys) 0
              (replicate (length ys) Raw @ Live ?x # replicate (length zs) Raw @ replicate m Raw) w2 of
             Ok _ (dst, w3) \<Rightarrow>
               keep_source (map Live ys @ map Live zs)
                 (uninitialized_copy_n (map Live ys @ map Live zs) (length ys) (length zs)
                    (Suc (length ys)) dst w3)
           | Thrown (dst, w3) \<Rightarrow> Thrown ((map Live ys @ map Live zs, dst), w3)
           | Abort r \<Rightarrow> Abort r) = Thrown ((map Live ys @ map Live zs, dst), w3)"
            and nf2: "\<not> no_faults w2"
          with a1 ok False have "Emplace tr (length ys) a ?v w =
              Thrown (?v, RawMemory_dtor \<lparr>buffer' = dst, capacity' = c\<rparr> w3)"
            unfolding E by (simp add: set_buffer_def vec_def)
          with nf nf2 show ?thesis by blast
        next
          assume a3: "(case uninitialized_copy_n (map Live ys @ map Live zs) 0 (length ys) 0
              (replicate (length ys) Raw @ Live ?x # replicate (length zs) Raw @ replicate m Raw) w2 of
             Ok _ (dst, w3) \<Rightarrow>
               keep_source (map Live ys @ map Live zs)
                 (uninitialized_copy_n (map Live ys @ map Live zs) (length ys) (length zs)
                    (Suc (length ys)) dst w3)
           | Thrown (dst, w3) \<Rightarrow> Thrown ((map Live ys @ map Live zs, dst), w3)
           | Abort r \<Rightarrow> Abort r) =
           Ok () ((map Live ys @ map Live zs,
                   map Live ys @ Live ?x # map Live zs @ replicate m Raw), w3)"
            and t3: "trace w3 = trace w2 @ replicate (length ys) CopyCtor
                @ replicate (length zs) CopyCtor"
          let ?w4 = "w3\<lparr>trace := trace w3 @ replicate n Dtor\<rparr>"
          have d: "destroy_n 0 (length ys + length zs) (map Live ys @ map Live zs) w3 =
              Ok () (replicate (length ys) Raw @ replicate (length zs) Raw, ?w4)"
            using destroy_n_live [of "[]" "ys @ zs" "[]" w3]
            by (simp add: n_def replicate_add)
          have dl: "Deallocate (replicate (length ys) Raw @ replicate (length zs) Raw) ?w4 =
              log_op Delete ?w4"
            using Deallocate_Raw [of n ?w4] c by (simp add: n_def replicate_add)
          from a1 ok a3 False d dl c
          have "Emplace tr (length ys) a ?v w =
              Ok (length ys) (vec (ys @ ?x # zs) m, log_op Delete ?w4)"
            unfolding E by (simp add: RawMemory_Swap_def RawMemory_dtor_def vec_def n_def)
          moreover from t1 ok t3 c False
          have "trace (log_op Delete ?w4) = trace w @ New c # ctor_kind a
              # replicate n (relocation_ctor tr) @ replicate n Dtor @ [Delete]"
            by (simp add: relocation_ctor_def n_def replicate_add)
          moreover from f2 w3 have "follows w (log_op Delete ?w4)"
            by (auto intro: follows_trans)
          ultimately show ?thesis unfolding m_def by blast
        qed
      qed
    qed
  qed
qed


lemma move_construct_within_cases:
  obtains (ok) w' where
    "move_construct_within tr (length pre) (Suc (length pre)) (pre @ Live z # Raw # post) w =
       Ok () (pre @ Live (moved_from tr z) # Live z # post, w')"
    "follows w w'" "trace w' = trace w @ [MoveCtor]"
  | (thrown) w' where
    "move_construct_within tr (length pre) (Suc (length pre)) (pre @ Live z # Raw # post) w =
       Thrown (pre @ Live z # Raw # post, w')"
    "follows w w'" "\<not> no_faults w"
proof (cases rule: construct_at_Raw [of MoveCtor "\<not> is_nothrow_move_constructible tr" z
      "pre @ [Live z]" post w])
  case (ok w')
  then show ?thesis
    by (intro that(1) [of w']) (simp_all add: move_construct_within_def)
next
  case (thrown w')
  then show ?thesis
    by (intro that(2) [of w']) (simp_all add: move_construct_within_def)
qed

lemma Emplace_spare_cases:
  "\<exists>w'. (Emplace tr (length ys) a (vec (ys @ zs @ [z]) (Suc k)) w =
          Ok (length ys) (vec (ys @ ctor_value a # zs @ [z]) k, w') \<and>
        follows w w' \<and>
        trace w' = trace w @ ctor_kind a # MoveCtor # replicate (length zs) MoveAssign
          @ [MoveAssign, Dtor]
      \<or> (\<exists>v'. Emplace tr (length ys) a (vec (ys @ zs @ [z]) (Suc k)) w = Thrown (v', w')) \<and>
         \<not> no_faults w)"
proof (cases rule: attempt_cases [of "ctor_may_throw tr a" w])
  case (thrown w1)
  then show ?thesis
    by (intro exI [of _ w1]) (simp add: Emplace_def Capacity_def)
next
  case (ok w0)
  let ?v = "vec (ys @ zs @ [z]) (Suc k)"
  let ?x = "ctor_value a"
  let ?w1 = "log_op (ctor_kind a) w0"
  from ok have f1: "follows w ?w1" by simp
  show ?thesis
  proof (cases rule: move_construct_within_cases [of tr "map Live ys @ map Live zs" z
        "replicate k Raw" ?w1])
    case (thrown w2)
    with ok have "Emplace tr (length ys) a ?v w =
        Thrown (set_buffer ?v (map Live ys @ map Live zs @ Live z # Raw # replicate k Raw),
          log_op Dtor w2)"
      by (simp add: Emplace_def Capacity_def Let_def RawMemory_index_def)
    moreover from thrown f1 have "\<not> no_faults w" by (auto dest: follows_no_faults)
    ultimately show ?thesis by blast
  next
    case ok2: (ok w2)
    from f1 ok2 have f2: "follows w w2" by (blast intro: follows_trans)
    from move_backward_loop_cases [of w2 tr zs "map Live ys" "moved_from tr z"
        "Live z # replicate k Raw"]
    obtain w3 where w3: "follows w2 w3" and r3:
      "(\<exists>c. move_backward tr (length ys) (length ys + length zs) (Suc (length ys + length zs))
            (map Live ys @ map Live zs @ Live (moved_from tr z) # Live z # replicate k Raw) w2 =
            Ok () (map Live ys @ Live c # map Live zs @ Live z # replicate k Raw, w3)) \<and>
          trace w3 = trace w2 @ replicate (length zs) MoveAssign
        \<or> (\<exists>cs. move_backward tr (length ys) (length ys + length zs) (Suc (length ys + length zs))
            (map Live ys @ map Live zs @ Live (moved_from tr z) # Live z # replicate k Raw) w2 =
            Thrown (cs, w3)) \<and>
          \<not> no_faults w2 \<and> \<not> is_nothrow_move_assignable tr"
      by (auto simp: move_backward_def)
    from f2 w3 have f3: "follows w w3" by (rule follows_trans)
    from r3 show ?thesis
    proof (elim disjE conjE exE)
      fix cs
      assume "move_backward tr (length ys) (length ys + length zs) (Suc (length ys + length zs))
            (map Live ys @ map Live zs @ Live (moved_from tr z) # Live z # replicate k Raw) w2 =
            Thrown (cs, w3)" and nf2: "\<not> no_faults w2"
      with ok ok2 have "Emplace tr (length ys) a ?v w =
          Thrown (set_buffer ?v cs, log_op Dtor w3)"
        by (simp add: Emplace_def Capacity_def Let_def RawMemory_index_def)
      moreover from nf2 f2 have "\<not> no_faults w" by (auto dest: follows_no_faults)
      ultimately show ?thesis by blast
    next
      fix c
      assume a3: "move_backward tr (length ys) (length ys + length zs) (Suc (length ys + length zs))
            (map Live ys @ map Live zs @ Live (moved_from tr z) # Live z # replicate k Raw) w2 =
            Ok () (map Live ys @ Live c # map Live zs @ Live z # replicate k Raw, w3)"
        and t3: "trace w3 = trace w2 @ replicate (length zs) MoveAssign"
      show ?thesis
      proof (cases rule: assign_at_Live [of MoveAssign "\<not> is_nothrow_move_assignable tr" ?x
            "map Live ys" c "map Live zs @ Live z # replicate k Raw" w3])
        case (thrown w4)
        with ok ok2 a3 have "Emplace tr (length ys) a ?v w =
            Thrown (set_buffer ?v (map Live ys @ Live c # map Live zs @ Live z # replicate k Raw),
              log_op Dtor w4)"
          by (simp add: Emplace_def Capacity_def Let_def RawMemory_index_def)
        moreover from thrown f3 have "\<not> no_faults w" by (auto dest: follows_no_faults)
        ultimately show ?thesis by blast
      next
        case ok4: (ok w4)
        from ok ok2 a3 ok4 have "Emplace tr (length ys) a ?v w =
            Ok (length ys) (vec (ys @ ?x # zs @ [z]) k, log_op Dtor w4)"
          by (simp add: Emplace_def Capacity_def Let_def RawMemory_index_def set_buffer_def vec_def)
        moreover from ok ok2 t3 ok4 have "trace (log_op Dtor w4) =
            trace w @ ctor_kind a # MoveCtor # replicate (length zs) MoveAssign @ [MoveAssign, Dtor]"
          by simp
        moreover from f3 ok4 have "follows w (log_op Dtor w4)"
          by (auto intro: follows_trans)
        ultimately show ?thesis by blast
      qed
    qed
  qed
qed


lemma vector_inv_cases:
  assumes "vector_inv v"
  obtains xs k where "v = vec xs k" "xs = elements v" "k = capacity' (data' v) - size' v"
  using assms vector_inv_vec(1) by blast

lemma EmplaceBack_result:
  assumes "vector_inv v"
  shows "case EmplaceBack tr a v w of
      Ok r (v', w') \<Rightarrow>
        v' = vec (elements v @ [ctor_value a])
               ((if size' v = capacity' (data' v)
                 then (if capacity' (data' v) = 0 then 1 else 2 * capacity' (data' v))
                 else capacity' (data' v)) - size' v - 1) \<and>
        r = size' v \<and> follows w w'
    | Thrown (v', w') \<Rightarrow>
        \<not> no_faults w \<and>
        (is_nothrow_move_constructible tr \<or> is_copy_constructible tr \<longrightarrow> v' = v)
    | Abort r \<Rightarrow> False"
proof -
  from assms obtain xs k where v: "v = vec xs k" by (rule vector_inv_cases)
  show ?thesis
  proof (cases k)
    case 0
    with EmplaceBack_full_cases [where tr = tr and a = a and xs = xs and w = w] v show ?thesis
      by (auto simp: mult.commute)
  next
    case (Suc k')
    with EmplaceBack_spare_cases [where tr = tr and a = a and xs = xs and w = w and k = k'] v show ?thesis
      by auto
  qed
qed

lemma Emplace_at_end: "Emplace tr (size' v) a v w = EmplaceBack tr a v w"
  by (auto simp: Emplace_def EmplaceBack_def RawMemory_index_def
      split: outcome.splits option.splits prod.splits if_splits)

lemma Emplace_result:
  assumes inv: "vector_inv v" and i: "i \<le> size' v"
  shows "case Emplace tr i a v w of
      Ok r (v', w') \<Rightarrow>
        v' = vec (take i (elements v) @ ctor_value a # drop i (elements v))
               ((if size' v = capacity' (data' v)
                 then (if capacity' (data' v) = 0 then 1 else 2 * capacity' (data' v))
                 else capacity' (data' v)) - size' v - 1) \<and>
        r = i \<and> follows w w'
    | Thrown (v', w') \<Rightarrow>
        \<not> no_faults w \<and>
        (size' v = capacity' (data' v) \<and>
         (is_nothrow_move_constructible tr \<or> is_copy_constructible tr) \<longrightarrow> v' = v)
    | Abort r \<Rightarrow> False"
proof (cases "i = size' v")
  case True
  with EmplaceBack_result [OF inv, where tr = tr and a = a and w = w] vector_inv_vec(2) [OF inv] show ?thesis
    by (auto simp: Emplace_at_end split: outcome.splits)
next
  case False
  from inv obtain xs k where v: "v = vec xs k" by (rule vector_inv_cases)
  define ys where "ys = take i xs"
  define zs where "zs = drop i xs"
  from False i v have xs: "xs = ys @ zs" "length ys = i" "zs \<noteq> []"
    by (auto simp: ys_def zs_def)
  show ?thesis
  proof (cases k)
    case 0
    with Emplace_full_cases [OF xs(3), where tr = tr and a = a and ys = ys and w = w] v xs show ?thesis
      by (auto simp: mult.commute)
  next
    case (Suc k')
    from xs(3) obtain zs' z where "zs = zs' @ [z]" by (cases zs rule: rev_cases) auto
    with Suc Emplace_spare_cases [where tr = tr and a = a and ys = ys and zs = zs' and z = z and k = k' and w = w] v xs show ?thesis
      by auto
  qed
qed

lemma EmplaceBack_grows:
  assumes inv: "vector_inv v" and full: "Size v = Capacity v"
  shows "case EmplaceBack tr a v w of
      Ok r (v', w') \<Rightarrow>
        Capacity v' = (if Capacity v = 0 then 1 else 2 * Capacity v) \<and>
        Size v' = Size v + 1 \<and>
        (\<forall>i < Size v. Vector_at v' i = Vector_at v i) \<and>
        Vector_at v' (Size v) = Some (ctor_value a) \<and>
        elements v' = elements v @ [ctor_value a] \<and>
        vector_inv v'
    | Thrown s \<Rightarrow> \<not> no_faults w
    | Abort r \<Rightarrow> False"
proof -
  from inv obtain xs k where v: "v = vec xs k" by (rule vector_inv_cases)
  with full have k: "k = 0" by (simp add: Size_def Capacity_def)
  from EmplaceBack_result [OF inv, where tr = tr and a = a and w = w] v k show ?thesis
    by (auto simp: Size_def Capacity_def Vector_at_vec nth_append split: outcome.splits)
qed

lemma Erase_cases:
  "\<exists>w'. follows w w' \<and>
     (Erase tr (length ys) (vec (ys @ z # zs) k) w = Ok (length ys) (vec (ys @ zs) (Suc k), w') \<and>
        trace w' = trace w @ replicate (length zs) MoveAssign @ [Dtor]
      \<or> Erase tr (length ys) (vec (ys @ z # zs) k) w = Abort Terminate \<and>
        \<not> no_faults w \<and> \<not> is_nothrow_move_assignable tr)"
proof -
  from move_loop_cases [of w tr "map Live ys" zs z "replicate k Raw"]
  obtain w1 where w1: "follows w w1" and r:
    "(\<exists>c. std_move tr (Suc (length ys)) (Suc (length ys + length zs)) (length ys)
          (map Live ys @ Live z # map Live zs @ replicate k Raw) w =
          Ok () (map Live ys @ map Live zs @ Live c # replicate k Raw, w1)) \<and>
        trace w1 = trace w @ replicate (length zs) MoveAssign
      \<or> (\<exists>cs. std_move tr (Suc (length ys)) (Suc (length ys + length zs)) (length ys)
          (map Live ys @ Live z # map Live zs @ replicate k Raw) w = Thrown (cs, w1)) \<and>
        \<not> no_faults w \<and> \<not> is_nothrow_move_assignable tr"
    by (auto simp: std_move_def)
  from r show ?thesis
  proof (elim disjE conjE exE)
    fix cs
    assume "std_move tr (Suc (length ys)) (Suc (length ys + length zs)) (length ys)
          (map Live ys @ Live z # map Live zs @ replicate k Raw) w = Thrown (cs, w1)"
      "\<not> no_faults w" "\<not> is_nothrow_move_assignable tr"
    with w1 show ?thesis
      by (intro exI [of _ w1]) (simp add: Erase_def Let_def)
  next
    fix c
    assume a: "std_move tr (Suc (length ys)) (Suc (length ys + length zs)) (length ys)
          (map Live ys @ Live z # map Live zs @ replicate k Raw) w =
          Ok () (map Live ys @ map Live zs @ Live c # replicate k Raw, w1)"
      and t: "trace w1 = trace w @ replicate (length zs) MoveAssign"
    have d: "destroy_at (length ys + length zs)
        (map Live ys @ map Live zs @ Live c # replicate k Raw) w1 =
        Ok () (map Live ys @ map Live zs @ Raw # replicate k Raw, log_op Dtor w1)"
      using destroy_at_Live [of "map Live ys @ map Live zs" c "replicate k Raw" w1] by simp
    from a d have "Erase tr (length ys) (vec (ys @ z # zs) k) w =
        Ok (length ys) (vec (ys @ zs) (Suc k), log_op Dtor w1)"
      by (simp add: Erase_def Let_def set_buffer_def vec_def)
    with w1 t show ?thesis
      by (intro exI [of _ "log_op Dtor w1"]) simp
  qed
qed

lemma PopBack_eq:
  "PopBack (vec (ys @ [z]) k) w = Ok () (vec ys (Suc k), log_op Dtor w)"
  using destroy_at_Live [of "map Live ys" z "replicate k Raw" w]
  by (simp add: PopBack_def set_buffer_def vec_def)

lemma Erase_last:
  "Erase tr (size' v - 1) v w =
     (case PopBack v w of
        Ok r s \<Rightarrow> Ok (size' v - 1) s | Thrown s \<Rightarrow> Thrown s | Abort r \<Rightarrow> Abort r)"
proof (cases "size' v = 0")
  case True
  then show ?thesis by (simp add: Erase_def PopBack_def)
next
  case False
  then obtain n where n: "size' v = Suc n" by (cases "size' v") auto
  show ?thesis
  proof (cases "destroy_n n 1 (buffer' (data' v)) w")
    case (Ok r s)
    with n show ?thesis
      by (cases s) (simp add: Erase_def PopBack_def Let_def std_move_def)
  next
    case (Thrown s)
    with n show ?thesis
      by (simp add: Erase_def PopBack_def Let_def std_move_def)
  next
    case (Abort r)
    with n show ?thesis
      by (simp add: Erase_def PopBack_def Let_def std_move_def)
  qed
qed

lemma Erase_result:
  assumes inv: "vector_inv v" and i: "i < size' v"
  shows "case Erase tr i v w of
      Ok r (v', w') \<Rightarrow>
        v' = vec (take i (elements v) @ drop (Suc i) (elements v))
               (Suc (capacity' (data' v) - size' v)) \<and>
        r = i \<and> follows w w'
    | Thrown s \<Rightarrow> False
    | Abort r \<Rightarrow> r = Terminate \<and> \<not> no_faults w \<and> \<not> is_nothrow_move_assignable tr"
proof -
  from inv obtain xs k where v: "v = vec xs k" by (rule vector_inv_cases)
  from i v have "xs = take i xs @ xs ! i # drop (Suc i) xs" "length (take i xs) = i"
    by (simp_all add: id_take_nth_drop)
  with Erase_cases [where w = w and tr = tr and ys = "take i xs" and z = "xs ! i"
      and zs = "drop (Suc i) xs" and k = k] v show ?thesis
    by auto
qed

lemma Vector_copy_loop_cases:
  "length sa = length ys \<Longrightarrow> length ys + length xs \<le> c \<Longrightarrow> length sa + length xs \<le> co \<Longrightarrow>
   \<exists>w'. follows w w' \<and>
     (Vector_copy_loop \<lparr>buffer' = sa @ map Live xs @ sb, capacity' = co\<rparr> (length ys) (length xs)
        \<lparr>buffer' = map Live ys @ replicate (length xs) Raw @ post, capacity' = c\<rparr> w =
          Ok () (\<lparr>buffer' = map Live ys @ map Live xs @ post, capacity' = c\<rparr>, w') \<and>
        trace w' = trace w @ replicate (length xs) CopyCtor
      \<or> Vector_copy_loop \<lparr>buffer' = sa @ map Live xs @ sb, capacity' = co\<rparr> (length ys) (length xs)
        \<lparr>buffer' = map Live ys @ replicate (length xs) Raw @ post, capacity' = c\<rparr> w =
          Thrown (\<lparr>buffer' = replicate (length ys) Raw @ replicate (length xs) Raw @ post,
                   capacity' = c\<rparr>, w') \<and>
        \<not> no_faults w)"
proof (induction xs arbitrary: ys sa w)
  case Nil
  show ?case by (intro exI [of _ w]) simp
next
  case (Cons x xs)
  have src: "object_at (sa @ Live x # map Live xs @ sb) (length ys) = Some x"
    using object_at_Live [of sa x "map Live xs @ sb"] Cons.prems(1) by simp
  show ?case
  proof (cases rule: construct_at_Raw [of CopyCtor True x "map Live ys"
        "replicate (length xs) Raw @ post" w])
    case (ok w1)
    from Cons.prems have p: "length (sa @ [Live x]) = length (ys @ [x])"
      "length (ys @ [x]) + length xs \<le> c" "length (sa @ [Live x]) + length xs \<le> co"
      by simp_all
    from Cons.IH [OF p, where w = w1] obtain w2 where w2: "follows w1 w2"
      and r: "Vector_copy_loop \<lparr>buffer' = sa @ Live x # map Live xs @ sb, capacity' = co\<rparr>
            (Suc (length ys)) (length xs)
            \<lparr>buffer' = map Live ys @ Live x # replicate (length xs) Raw @ post, capacity' = c\<rparr> w1 =
            Ok () (\<lparr>buffer' = map Live ys @ Live x # map Live xs @ post, capacity' = c\<rparr>, w2) \<and>
          trace w2 = trace w1 @ replicate (length xs) CopyCtor
        \<or> Vector_copy_loop \<lparr>buffer' = sa @ Live x # map Live xs @ sb, capacity' = co\<rparr>
            (Suc (length ys)) (length xs)
            \<lparr>buffer' = map Live ys @ Live x # replicate (length xs) Raw @ post, capacity' = c\<rparr> w1 =
            Thrown (\<lparr>buffer' = replicate (Suc (length ys)) Raw @ replicate (length xs) Raw @ post,
                     capacity' = c\<rparr>, w2) \<and>
          \<not> no_faults w1"
      by auto
    from ok w2 have f: "follows w w2" by (blast intro: follows_trans)
    from ok have nf: "\<not> no_faults w1 \<Longrightarrow> \<not> no_faults w" by (blast dest: follows_no_faults)
    from r ok f nf src Cons.prems show ?thesis
      by (intro exI [of _ w2])
        (auto simp: replicate_append_same CopyConstruct_def copy_construct_at_def
          RawMemory_plus_def RawMemory_index_def)
  next
    case (thrown w1)
    with destroy_n_live [of "[]" ys "Raw # replicate (length xs) Raw @ post" w1] Cons.prems src
    show ?thesis
      by (intro exI [of _ "w1\<lparr>trace := trace w1 @ replicate (length ys) Dtor\<rparr>"])
        (simp add: CopyConstruct_def copy_construct_at_def RawMemory_plus_def RawMemory_index_def)
  qed
qed

lemma Vector_copy_cases:
  "\<exists>w'. follows w w' \<and>
     (Vector_copy (vec xs k) w = Ok (vec xs 0) w' \<and>
        trace w' = trace w @ (if xs = [] then [] else [New (length xs)])
          @ replicate (length xs) CopyCtor
      \<or> Vector_copy (vec xs k) w = Thrown w' \<and> \<not> no_faults w)"
proof -
  from RawMemory_new_cases [of w "length xs"] obtain w1 where w1: "follows w w1"
    and r1: "RawMemory_new (length xs) w =
          Ok \<lparr>buffer' = replicate (length xs) Raw, capacity' = length xs\<rparr> w1 \<and>
        trace w1 = trace w @ (if length xs = 0 then [] else [New (length xs)])
      \<or> RawMemory_new (length xs) w = Thrown w1 \<and> \<not> no_faults w"
    by blast
  from r1 show ?thesis
  proof (elim disjE conjE)
    assume "RawMemory_new (length xs) w = Thrown w1" "\<not> no_faults w"
    with w1 show ?thesis
      by (intro exI [of _ w1]) (simp add: Vector_copy_def)
  next
    assume a1: "RawMemory_new (length xs) w =
          Ok \<lparr>buffer' = replicate (length xs) Raw, capacity' = length xs\<rparr> w1"
      and t1: "trace w1 = trace w @ (if length xs = 0 then [] else [New (length xs)])"
    from Vector_copy_loop_cases [where sa = "[]" and ys = "[]" and xs = xs and c = "length xs"
        and co = "length xs + k" and sb = "replicate k Raw" and post = "[]" and w = w1]
    obtain w2 where w2: "follows w1 w2"
      and r2: "Vector_copy_loop \<lparr>buffer' = map Live xs @ replicate k Raw, capacity' = length xs + k\<rparr>
            0 (length xs) \<lparr>buffer' = replicate (length xs) Raw, capacity' = length xs\<rparr> w1 =
            Ok () (\<lparr>buffer' = map Live xs, capacity' = length xs\<rparr>, w2) \<and>
          trace w2 = trace w1 @ replicate (length xs) CopyCtor
        \<or> Vector_copy_loop \<lparr>buffer' = map Live xs @ replicate k Raw, capacity' = length xs + k\<rparr>
            0 (length xs) \<lparr>buffer' = replicate (length xs) Raw, capacity' = length xs\<rparr> w1 =
            Thrown (\<lparr>buffer' = replicate (length xs) Raw, capacity' = length xs\<rparr>, w2) \<and>
          \<not> no_faults w1"
      by auto
    from w1 w2 have f: "follows w w2" by (rule follows_trans)
    from w1 have nf: "\<not> no_faults w1 \<Longrightarrow> \<not> no_faults w" by (blast dest: follows_no_faults)
    from r2 show ?thesis
    proof (elim disjE conjE)
      assume "Vector_copy_loop \<lparr>buffer' = map Live xs @ replicate k Raw, capacity' = length xs + k\<rparr>
            0 (length xs) \<lparr>buffer' = replicate (length xs) Raw, capacity' = length xs\<rparr> w1 =
            Ok () (\<lparr>buffer' = map Live xs, capacity' = length xs\<rparr>, w2)"
        "trace w2 = trace w1 @ replicate (length xs) CopyCtor"
      with a1 t1 f show ?thesis
        by (intro exI [of _ w2]) (simp add: Vector_copy_def vec_def)
    next
      assume "Vector_copy_loop \<lparr>buffer' = map Live xs @ replicate k Raw, capacity' = length xs + k\<rparr>
            0 (length xs) \<lparr>buffer' = replicate (length xs) Raw, capacity' = length xs\<rparr> w1 =
            Thrown (\<lparr>buffer' = replicate (length xs) Raw, capacity' = length xs\<rparr>, w2)"
        "\<not> no_faults w1"
      with a1 f nf show ?thesis
        by (intro exI [of _ "if length xs = 0 then w2 else log_op Delete w2"])
          (simp add: Vector_copy_def vec_def RawMemory_dtor_def)
    qed
  qed
qed

lemma Vector_dtor_eq:
  "Vector_dtor (vec xs k) w =
     Ok () (w\<lparr>trace := trace w @ replicate (length xs) Dtor
       @ (if length xs + k = 0 then [] else [Delete])\<rparr>)"
proof -
  have "Deallocate (replicate (length xs) Raw @ replicate k Raw) w' =
      (if length xs + k = 0 then w' else log_op Delete w')" for w' :: "'a world"
    using Deallocate_Raw [of "length xs + k" w'] by (simp add: replicate_add)
  with destroy_n_live [of "[]" xs "replicate k Raw" w] show ?thesis
    by (simp add: Vector_dtor_def RawMemory_dtor_def log_op_def)
qed


lemma Vector_assign_loop_cases:
  "length xs = length zs \<Longrightarrow> length ra = length pre \<Longrightarrow> length pre + length xs \<le> c \<Longrightarrow>
   \<exists>w'. follows w w' \<and>
     (Vector_assign_loop (vec (ra @ xs @ rb) kr) (length pre) (length xs)
        \<lparr>buffer' = pre @ map Live zs @ post, capacity' = c\<rparr> w =
          Ok () (\<lparr>buffer' = pre @ map Live xs @ post, capacity' = c\<rparr>, w') \<and>
        trace w' = trace w @ replicate (length xs) CopyAssign
      \<or> (\<exists>d. Vector_assign_loop (vec (ra @ xs @ rb) kr) (length pre) (length xs)
        \<lparr>buffer' = pre @ map Live zs @ post, capacity' = c\<rparr> w = Thrown (d, w')) \<and>
        \<not> no_faults w)"
proof (induction xs zs arbitrary: ra pre w rule: list_induct2)
  case Nil
  show ?case by (intro exI [of _ w]) simp
next
  case (Cons x xs z zs)
  have src: "object_at (map Live ra @ Live x # map Live xs @ map Live rb @ replicate kr Raw)
      (length pre) = Some x"
    using object_at_Live [of "map Live ra" x "map Live xs @ map Live rb @ replicate kr Raw"]
      Cons.prems(1) by simp
  from Cons.prems have idx: "length pre < c" "length pre < length ra + Suc (length xs + length rb + kr)"
    by simp_all
  show ?case
  proof (cases rule: assign_at_Live [of CopyAssign True x pre z "map Live zs @ post" w])
    case (ok w1)
    from Cons.prems have p: "length (ra @ [x]) = length (pre @ [Live x])"
      "length (pre @ [Live x]) + length xs \<le> c"
      by simp_all
    from Cons.IH [OF p, where w = w1] obtain w2 where w2: "follows w1 w2"
      and r: "Vector_assign_loop (vec (ra @ x # xs @ rb) kr) (Suc (length pre)) (length xs)
            \<lparr>buffer' = pre @ Live x # map Live zs @ post, capacity' = c\<rparr> w1 =
            Ok () (\<lparr>buffer' = pre @ Live x # map Live xs @ post, capacity' = c\<rparr>, w2) \<and>
          trace w2 = trace w1 @ replicate (length xs) CopyAssign
        \<or> (\<exists>d. Vector_assign_loop (vec (ra @ x # xs @ rb) kr) (Suc (length pre)) (length xs)
            \<lparr>buffer' = pre @ Live x # map Live zs @ post, capacity' = c\<rparr> w1 = Thrown (d, w2)) \<and>
          \<not> no_faults w1"
      by auto
    from ok w2 have f: "follows w w2" by (blast intro: follows_trans)
    from ok have nf: "\<not> no_faults w1 \<Longrightarrow> \<not> no_faults w" by (blast dest: follows_no_faults)
    from r ok f nf src idx show ?thesis
      by (intro exI [of _ w2]) (auto simp: replicate_append_same RawMemory_index_def)
  next
    case (thrown w1)
    with src idx show ?thesis
      by (intro exI [of _ w1]) (simp add: RawMemory_index_def)
  qed
qed


lemma copy_assign_realloc_cases:
  assumes big: "length ts + kt < length rs"
  shows "\<exists>w'. follows w w' \<and>
     (Vector_copy_assign_body (vec ts kt) (vec rs kr) w = Ok () (vec rs 0, w') \<and>
        trace w' = trace w @ New (length rs) # replicate (length rs) CopyCtor
          @ replicate (length ts) Dtor @ (if length ts + kt = 0 then [] else [Delete])
      \<or> Vector_copy_assign_body (vec ts kt) (vec rs kr) w = Thrown (vec ts kt, w') \<and>
        \<not> no_faults w)"
proof -
  from big have rs: "rs \<noteq> []" by auto
  from Vector_copy_cases [of w rs kr] obtain w1 where w1: "follows w w1"
    and r: "Vector_copy (vec rs kr) w = Ok (vec rs 0) w1 \<and>
        trace w1 = trace w @ (if rs = [] then [] else [New (length rs)])
          @ replicate (length rs) CopyCtor
      \<or> Vector_copy (vec rs kr) w = Thrown w1 \<and> \<not> no_faults w"
    by blast
  from r show ?thesis
  proof (elim disjE conjE)
    assume "Vector_copy (vec rs kr) w = Thrown w1" "\<not> no_faults w"
    with big w1 show ?thesis
      by (intro exI [of _ w1]) (simp add: Vector_copy_assign_body_def)
  next
    assume "Vector_copy (vec rs kr) w = Ok (vec rs 0) w1"
      and "trace w1 = trace w @ (if rs = [] then [] else [New (length rs)])
          @ replicate (length rs) CopyCtor"
    with big w1 rs show ?thesis
      by (intro exI [of _ "w1\<lparr>trace := trace w1 @ replicate (length ts) Dtor
            @ (if length ts + kt = 0 then [] else [Delete])\<rparr>"])
        (simp add: Vector_copy_assign_body_def Vector_dtor_eq)
  qed
qed

lemma copy_assign_shrink_cases:
  assumes len: "length ta = length rs" and tb: "tb \<noteq> []"
  shows "\<exists>w'. follows w w' \<and>
     (Vector_copy_assign_body (vec (ta @ tb) kt) (vec rs kr) w =
          Ok () (vec rs (length tb + kt), w') \<and>
        trace w' = trace w @ replicate (length rs) CopyAssign @ replicate (length tb) Dtor
      \<or> (\<exists>v'. Vector_copy_assign_body (vec (ta @ tb) kt) (vec rs kr) w = Thrown (v', w')) \<and>
        \<not> no_faults w)"
proof -
  let ?c = "length rs + length tb + kt"
  from Vector_assign_loop_cases [where xs = rs and zs = ta and ra = "[]" and pre = "[]"
      and rb = "[]" and kr = kr and c = ?c and post = "map Live tb @ replicate kt Raw" and w = w] len
  obtain w1 where w1: "follows w w1"
    and r: "Vector_assign_loop (vec rs kr) 0 (length rs)
            \<lparr>buffer' = map Live ta @ map Live tb @ replicate kt Raw, capacity' = ?c\<rparr> w =
            Ok () (\<lparr>buffer' = map Live rs @ map Live tb @ replicate kt Raw, capacity' = ?c\<rparr>, w1) \<and>
          trace w1 = trace w @ replicate (length rs) CopyAssign
        \<or> (\<exists>d. Vector_assign_loop (vec rs kr) 0 (length rs)
            \<lparr>buffer' = map Live ta @ map Live tb @ replicate kt Raw, capacity' = ?c\<rparr> w =
            Thrown (d, w1)) \<and>
          \<not> no_faults w"
    by auto
  from tb have gt: "length rs < length rs + length tb" "\<not> length rs + length tb + kt < length rs"
    by simp_all
  from r show ?thesis
  proof (elim disjE conjE exE)
    fix d
    assume "Vector_assign_loop (vec rs kr) 0 (length rs)
            \<lparr>buffer' = map Live ta @ map Live tb @ replicate kt Raw, capacity' = ?c\<rparr> w =
            Thrown (d, w1)" "\<not> no_faults w"
    with w1 len gt show ?thesis
      by (intro exI [of _ w1]) (simp add: Vector_copy_assign_body_def vec_def)
  next
    assume a: "Vector_assign_loop (vec rs kr) 0 (length rs)
            \<lparr>buffer' = map Live ta @ map Live tb @ replicate kt Raw, capacity' = ?c\<rparr> w =
            Ok () (\<lparr>buffer' = map Live rs @ map Live tb @ replicate kt Raw, capacity' = ?c\<rparr>, w1)"
      and t: "trace w1 = trace w @ replicate (length rs) CopyAssign"
    let ?w2 = "w1\<lparr>trace := trace w1 @ replicate (length tb) Dtor\<rparr>"
    have d: "destroy_n (length rs) (length tb)
        (map Live rs @ map Live tb @ replicate kt Raw) w1 =
        Ok () (map Live rs @ replicate (length tb) Raw @ replicate kt Raw, ?w2)"
      using destroy_n_live [of "map Live rs" tb "replicate kt Raw" w1] by simp
    from a d len gt have "Vector_copy_assign_body (vec (ta @ tb) kt) (vec rs kr) w =
        Ok () (vec rs (length tb + kt), ?w2)"
      by (simp add: Vector_copy_assign_body_def vec_def replicate_add)
    with w1 t show ?thesis
      by (intro exI [of _ ?w2]) simp
  qed
qed

lemma copy_assign_fill_cases:
  assumes len: "length ra = length ts" and fit: "length rb \<le> kt"
  shows "\<exists>w'. follows w w' \<and>
     (Vector_copy_assign_body (vec ts kt) (vec (ra @ rb) kr) w =
          Ok () (vec (ra @ rb) (kt - length rb), w') \<and>
        trace w' = trace w @ replicate (length ts) CopyAssign @ replicate (length rb) CopyCtor
      \<or> (\<exists>v'. Vector_copy_assign_body (vec ts kt) (vec (ra @ rb) kr) w = Thrown (v', w')) \<and>
        \<not> no_faults w)"
proof -
  let ?c = "length ts + kt"
  from fit have kt: "replicate kt Raw = replicate (length rb) Raw @ replicate (kt - length rb) Raw"
    by (rule replicate_Raw_split)
  from Vector_assign_loop_cases [where xs = ra and zs = ts and ra = "[]" and pre = "[]"
      and rb = rb and kr = kr and c = ?c and post = "replicate kt Raw" and w = w] len
  obtain w1 where w1: "follows w w1"
    and r: "Vector_assign_loop (vec (ra @ rb) kr) 0 (length ts)
            \<lparr>buffer' = map Live ts @ replicate kt Raw, capacity' = ?c\<rparr> w =
            Ok () (\<lparr>buffer' = map Live ra @ replicate kt Raw, capacity' = ?c\<rparr>, w1) \<and>
          trace w1 = trace w @ replicate (length ts) CopyAssign
        \<or> (\<exists>d. Vector_assign_loop (vec (ra @ rb) kr) 0 (length ts)
            \<lparr>buffer' = map Live ts @ replicate kt Raw, capacity' = ?c\<rparr> w =
            Thrown (d, w1)) \<and>
          \<not> no_faults w"
    by auto
  from fit have gt: "\<not> length ts + kt < length ts + length rb" "\<not> length ts + length rb < length ts"
    by simp_all
  from r show ?thesis
  proof (elim disjE conjE exE)
    fix d
    assume "Vector_assign_loop (vec (ra @ rb) kr) 0 (length ts)
            \<lparr>buffer' = map Live ts @ replicate kt Raw, capacity' = ?c\<rparr> w =
            Thrown (d, w1)" "\<not> no_faults w"
    with w1 len gt show ?thesis
      by (intro exI [of _ w1]) (simp add: Vector_copy_assign_body_def vec_def)
  next
    assume a: "Vector_assign_loop (vec (ra @ rb) kr) 0 (length ts)
            \<lparr>buffer' = map Live ts @ replicate kt Raw, capacity' = ?c\<rparr> w =
            Ok () (\<lparr>buffer' = map Live ra @ replicate kt Raw, capacity' = ?c\<rparr>, w1)"
      and t: "trace w1 = trace w @ replicate (length ts) CopyAssign"
    from uninitialized_copy_loop_cases [where first = "length ts" and ys = "[]"
        and sa = "map Live ra" and xs = rb and sb = "replicate kr Raw" and pre = "map Live ra"
        and post = "replicate (kt - length rb) Raw" and w = w1] len
    obtain w2 where w2: "follows w1 w2"
      and r2: "uninitialized_copy_n (map Live ra @ map Live rb @ replicate kr Raw) (length ts)
            (length rb) (length ts)
            (map Live ra @ replicate (length rb) Raw @ replicate (kt - length rb) Raw) w1 =
            Ok () (map Live ra @ map Live rb @ replicate (kt - length rb) Raw, w2) \<and>
          trace w2 = trace w1 @ replicate (length rb) CopyCtor
        \<or> uninitialized_copy_n (map Live ra @ map Live rb @ replicate kr Raw) (length ts)
            (length rb) (length ts)
            (map Live ra @ replicate (length rb) Raw @ replicate (kt - length rb) Raw) w1 =
            Thrown (map Live ra @ replicate (length rb) Raw @ replicate (kt - length rb) Raw, w2) \<and>
          \<not> no_faults w1"
      by (auto simp: uninitialized_copy_n_def)
    from w1 w2 have f: "follows w w2" by (rule follows_trans)
    from w1 have nf: "\<not> no_faults w1 \<Longrightarrow> \<not> no_faults w" by (blast dest: follows_no_faults)
    from a have a': "Vector_assign_loop (vec (ra @ rb) kr) 0 (length ts)
            \<lparr>buffer' = map Live ts @ replicate kt Raw, capacity' = ?c\<rparr> w =
            Ok () (\<lparr>buffer' = map Live ra @ replicate (length rb) Raw
              @ replicate (kt - length rb) Raw, capacity' = ?c\<rparr>, w1)"
      using kt by simp
    from r2 show ?thesis
    proof (elim disjE conjE)
      assume "uninitialized_copy_n (map Live ra @ map Live rb @ replicate kr Raw) (length ts)
            (length rb) (length ts)
            (map Live ra @ replicate (length rb) Raw @ replicate (kt - length rb) Raw) w1 =
            Thrown (map Live ra @ replicate (length rb) Raw @ replicate (kt - length rb) Raw, w2)"
        "\<not> no_faults w1"
      with a' len gt f nf show ?thesis
        by (intro exI [of _ w2]) (simp add: Vector_copy_assign_body_def vec_def)
    next
      assume "uninitialized_copy_n (map Live ra @ map Live rb @ replicate kr Raw) (length ts)
            (length rb) (length ts)
            (map Live ra @ replicate (length rb) Raw @ replicate (kt - length rb) Raw) w1 =
            Ok () (map Live ra @ map Live rb @ replicate (kt - length rb) Raw, w2)"
        "trace w2 = trace w1 @ replicate (length rb) CopyCtor"
      with a' len gt f t fit show ?thesis
        by (intro exI [of _ w2]) (simp add: Vector_copy_assign_body_def vec_def)
    qed
  qed
qed

lemma copy_assign_body_result:
  assumes tinv: "vector_inv this" and rinv: "vector_inv rhs"
  shows "case Vector_copy_assign_body this rhs w of
      Ok r (v', w') \<Rightarrow>
        follows w w' \<and>
        (if size' rhs \<le> capacity' (data' this)
         then v' = vec (elements rhs) (capacity' (data' this) - size' rhs) \<and>
           (\<exists>ops. trace w' = trace w @ ops \<and> set ops \<subseteq> {CopyAssign, CopyCtor, Dtor})
         else v' = vec (elements rhs) 0 \<and>
           (\<exists>ops. trace w' = trace w @ New (size' rhs) # ops))
    | Thrown (v', w') \<Rightarrow>
        \<not> no_faults w \<and> (capacity' (data' this) < size' rhs \<longrightarrow> v' = this)
    | Abort r \<Rightarrow> False"
proof -
  from tinv obtain ts kt where t: "this = vec ts kt" by (rule vector_inv_cases)
  from rinv obtain rs kr where r: "rhs = vec rs kr" by (rule vector_inv_cases)
  consider (realloc) "length ts + kt < length rs"
    | (shrink) "length rs < length ts"
    | (fill) "length ts \<le> length rs" "length rs \<le> length ts + kt"
    by linarith
  then show ?thesis
  proof cases
    case realloc
    from copy_assign_realloc_cases [OF realloc, where w = w and kr = kr] t r realloc show ?thesis
      by auto
  next
    case shrink
    define ta where "ta = take (length rs) ts"
    define tb where "tb = drop (length rs) ts"
    from shrink have ts: "ts = ta @ tb" "length ta = length rs" "tb \<noteq> []"
      by (auto simp: ta_def tb_def)
    have sub: "set (replicate (length rs) CopyAssign @ replicate (length tb) Dtor)
        \<subseteq> {CopyAssign, CopyCtor, Dtor}"
      by auto
    from copy_assign_shrink_cases [OF ts(2,3), where w = w and kr = kr and kt = kt] t r ts sub
    show ?thesis
      by (auto simp: add.assoc)
  next
    case fill
    define ra where "ra = take (length ts) rs"
    define rb where "rb = drop (length ts) rs"
    from fill have rs: "rs = ra @ rb" "length ra = length ts" "length rb \<le> kt"
      by (auto simp: ra_def rb_def)
    have sub: "set (replicate (length ts) CopyAssign @ replicate (length rb) CopyCtor)
        \<subseteq> {CopyAssign, CopyCtor, Dtor}"
      by auto
    from copy_assign_fill_cases [OF rs(2,3), where w = w and kr = kr] t r rs sub
    show ?thesis
      by auto
  qed
qed
















section \<open>The properties claimed of the class\<close>




text \<open>
  C2: the claim fails on the code. The move assignment hands the storage of the target to
  \<^verbatim>\<open>operator delete\<close> with its elements still live: assigning the vector \<open>[7, 8, 9]\<close> to
  the vector \<open>[1, 2]\<close> loses the objects 1 and 2. So does \<^verbatim>\<open>EmplaceBack\<close> on a full vector
  when a relocating copy throws: the new storage is released with the new element, 30,
  still live in it.
\<close>

theorem storage_released_with_live_objects:
  "Vector_move_assign 0 1 two_vectors quiet_world =
     (two_vectors(0 := vec [7, 8, 9] 0, 1 := vec [] 0),
      \<lparr>plan = [], trace = [Delete], leaked = [1, 2]\<rparr>) \<and>
   EmplaceBack copied_nat (Args 30) (vec [10, 20] 0) (throwing_at 3) =
     Thrown (vec [10, 20] 0,
       \<lparr>plan = [], trace = [New 4, ArgsCtor, CopyCtor, Dtor, Delete], leaked = [30]\<rparr>)"
proof
  show "Vector_move_assign 0 1 two_vectors quiet_world =
     (two_vectors(0 := vec [7, 8, 9] 0, 1 := vec [] 0),
      \<lparr>plan = [], trace = [Delete], leaked = [1, 2]\<rparr>)"
    by (simp add: Vector_move_assign_def two_vectors_def quiet_world_def RawMemory_move_def
        RawMemory_Swap_def RawMemory_dtor_def Deallocate_def vec_def log_op_def Let_def
        fun_upd_twist)
  show "EmplaceBack copied_nat (Args 30) (vec [10, 20] 0) (throwing_at 3) =
     Thrown (vec [10, 20] 0,
       \<lparr>plan = [], trace = [New 4, ArgsCtor, CopyCtor, Dtor, Delete], leaked = [30]\<rparr>)"
    by code_simp
qed



text \<open>
  C4: appending to a vector whose size \<open>n\<close> equals its capacity \<open>c\<close>, by \<^verbatim>\<open>EmplaceBack\<close>
  with any arguments or by either \<^verbatim>\<open>PushBack\<close>, does not abort; when it returns, the
  capacity is \<open>2 * c\<close>, or 1 when \<open>c\<close> is 0, the size is \<open>n + 1\<close>, the first \<open>n\<close> elements
  are the ones before and the last one is the value appended; and it returns when nothing
  throws.
\<close>

theorem append_at_capacity:
  assumes "vector_inv v" and "Size v = Capacity v"
  shows "(case EmplaceBack tr a v w of
      Ok r (v', w') \<Rightarrow>
        Capacity v' = (if Capacity v = 0 then 1 else 2 * Capacity v) \<and>
        Size v' = Size v + 1 \<and>
        (\<forall>i < Size v. Vector_at v' i = Vector_at v i) \<and>
        Vector_at v' (Size v) = Some (ctor_value a) \<and>
        elements v' = elements v @ [ctor_value a] \<and>
        vector_inv v'
    | Thrown s \<Rightarrow> \<not> no_faults w
    | Abort r \<Rightarrow> False) \<and>
   (case PushBack tr x v w of
      Ok r (v', w') \<Rightarrow>
        Capacity v' = (if Capacity v = 0 then 1 else 2 * Capacity v) \<and>
        Size v' = Size v + 1 \<and>
        (\<forall>i < Size v. Vector_at v' i = Vector_at v i) \<and>
        Vector_at v' (Size v) = Some x \<and>
        elements v' = elements v @ [x]
    | Thrown s \<Rightarrow> \<not> no_faults w
    | Abort r \<Rightarrow> False) \<and>
   (case PushBack_rvalue tr x v w of
      Ok r (v', w') \<Rightarrow>
        Capacity v' = (if Capacity v = 0 then 1 else 2 * Capacity v) \<and>
        Size v' = Size v + 1 \<and>
        (\<forall>i < Size v. Vector_at v' i = Vector_at v i) \<and>
        Vector_at v' (Size v) = Some x \<and>
        elements v' = elements v @ [x]
    | Thrown s \<Rightarrow> \<not> no_faults w
    | Abort r \<Rightarrow> False)"
proof (intro conjI)
  show "case EmplaceBack tr a v w of
      Ok r (v', w') \<Rightarrow>
        Capacity v' = (if Capacity v = 0 then 1 else 2 * Capacity v) \<and>
        Size v' = Size v + 1 \<and>
        (\<forall>i < Size v. Vector_at v' i = Vector_at v i) \<and>
        Vector_at v' (Size v) = Some (ctor_value a) \<and>
        elements v' = elements v @ [ctor_value a] \<and>
        vector_inv v'
    | Thrown s \<Rightarrow> \<not> no_faults w
    | Abort r \<Rightarrow> False"
    by (rule EmplaceBack_grows [OF assms])
  show "case PushBack tr x v w of
      Ok r (v', w') \<Rightarrow>
        Capacity v' = (if Capacity v = 0 then 1 else 2 * Capacity v) \<and>
        Size v' = Size v + 1 \<and>
        (\<forall>i < Size v. Vector_at v' i = Vector_at v i) \<and>
        Vector_at v' (Size v) = Some x \<and>
        elements v' = elements v @ [x]
    | Thrown s \<Rightarrow> \<not> no_faults w
    | Abort r \<Rightarrow> False"
    using EmplaceBack_grows [OF assms, where tr = tr and a = "CopyOf x" and w = w]
    by (auto simp: PushBack_def split: outcome.splits)
  show "case PushBack_rvalue tr x v w of
      Ok r (v', w') \<Rightarrow>
        Capacity v' = (if Capacity v = 0 then 1 else 2 * Capacity v) \<and>
        Size v' = Size v + 1 \<and>
        (\<forall>i < Size v. Vector_at v' i = Vector_at v i) \<and>
        Vector_at v' (Size v) = Some x \<and>
        elements v' = elements v @ [x]
    | Thrown s \<Rightarrow> \<not> no_faults w
    | Abort r \<Rightarrow> False"
    using EmplaceBack_grows [OF assms, where tr = tr and a = "MoveOf x" and w = w]
    by (auto simp: PushBack_rvalue_def split: outcome.splits)
qed

theorem append_at_capacity_witness:
  "vector_inv (vec [10, 20 :: nat] 0) \<and> Size (vec [10, 20 :: nat] 0) = Capacity (vec [10, 20 :: nat] 0) \<and>
   (case PushBack copied_nat 30 (vec [10, 20] 0) quiet_world of
      Ok r (v', w') \<Rightarrow> Capacity v' = 4 \<and> Size v' = 3 \<and> elements v' = [10, 20, 30]
    | Thrown s \<Rightarrow> False
    | Abort r \<Rightarrow> False)"
  using append_at_capacity [where v = "vec [10, 20 :: nat] 0" and tr = copied_nat
      and a = "Args 0" and w = quiet_world and x = 30]
  by (auto simp: Size_def Capacity_def no_faults_def quiet_world_def split: outcome.splits)

text \<open>
  C5: \<^verbatim>\<open>Insert\<close> of \<open>x\<close> at an index \<open>i\<close> from 0 to the size does not abort; when it
  returns, the elements are those before \<open>i\<close>, then \<open>x\<close>, then those from \<open>i\<close> on, the size
  is one more, and the iterator returned is at \<open>i\<close>, where \<open>x\<close> now is; it returns when
  nothing throws. At the index \<open>size\<close> it does what \<^verbatim>\<open>EmplaceBack\<close> does, and so what
  \<^verbatim>\<open>PushBack\<close> does.
\<close>

theorem Insert_at_index:
  assumes "vector_inv v" and "i \<le> Size v"
  shows "(case Insert tr i x v w of
      Ok r (v', w') \<Rightarrow>
        elements v' = take i (elements v) @ x # drop i (elements v) \<and>
        Size v' = Size v + 1 \<and> r = i \<and> Vector_at v' r = Some x \<and> vector_inv v'
    | Thrown s \<Rightarrow> \<not> no_faults w
    | Abort r \<Rightarrow> False) \<and>
   (case Insert_rvalue tr i x v w of
      Ok r (v', w') \<Rightarrow>
        elements v' = take i (elements v) @ x # drop i (elements v) \<and>
        Size v' = Size v + 1 \<and> r = i \<and> Vector_at v' r = Some x \<and> vector_inv v'
    | Thrown s \<Rightarrow> \<not> no_faults w
    | Abort r \<Rightarrow> False) \<and>
   Insert tr (Size v) x v w = EmplaceBack tr (CopyOf x) v w \<and>
   Insert_rvalue tr (Size v) x v w = EmplaceBack tr (MoveOf x) v w \<and>
   PushBack tr x v w =
     (case Insert tr (Size v) x v w of
        Ok r s \<Rightarrow> Ok () s | Thrown s \<Rightarrow> Thrown s | Abort r \<Rightarrow> Abort r)"
proof -
  from assms have i: "i \<le> size' v" by (simp add: Size_def)
  from assms(1) have len: "length (elements v) = size' v" by (rule vector_inv_vec(2))
  have at: "Vector_at (vec (take i (elements v) @ x # drop i (elements v)) k) i = Some x" for k
    using i len by (subst Vector_at_vec) (simp_all add: nth_append)
  have r: "case Emplace tr i a v w of
      Ok r (v', w') \<Rightarrow>
        elements v' = take i (elements v) @ x # drop i (elements v) \<and>
        Size v' = Size v + 1 \<and> r = i \<and> Vector_at v' r = Some x \<and> vector_inv v'
    | Thrown s \<Rightarrow> \<not> no_faults w
    | Abort r \<Rightarrow> False" if "ctor_value a = x" for a
    using Emplace_result [OF assms(1) i, where tr = tr and a = a and w = w] i len at that
    by (auto simp: Size_def split: outcome.splits)
  from r [of "CopyOf x"] r [of "MoveOf x"] show ?thesis
    by (simp add: Insert_def Insert_rvalue_def PushBack_def Size_def Emplace_at_end)
qed

theorem Insert_at_index_witness:
  "vector_inv (vec [10, 20, 30 :: nat] 0) \<and> 1 \<le> Size (vec [10, 20, 30 :: nat] 0) \<and>
   (case Insert copied_nat 1 99 (vec [10, 20, 30] 0) quiet_world of
      Ok r (v', w') \<Rightarrow> elements v' = [10, 99, 20, 30] \<and> Size v' = 4 \<and> r = 1
    | Thrown s \<Rightarrow> False
    | Abort r \<Rightarrow> False)"
  using Insert_at_index [where v = "vec [10, 20, 30 :: nat] 0" and i = 1 and tr = copied_nat
      and x = 99 and w = quiet_world]
  by (auto simp: Size_def no_faults_def quiet_world_def split: outcome.splits)

text \<open>
  C6: \<^verbatim>\<open>Erase\<close> at an index \<open>i\<close> below the size never leaves by an exception. It returns
  the iterator \<open>i\<close> with the elements before \<open>i\<close> followed by those after \<open>i\<close>, the size one
  less and the capacity as before; the one other outcome is \<^verbatim>\<open>std::terminate\<close>, when the
  move assignment of the element type is not declared non-throwing and throws. Erasing
  the last element is \<^verbatim>\<open>PopBack\<close>, which returns with the last element removed.
\<close>

theorem Erase_at_index:
  assumes "vector_inv v" and "i < Size v"
  shows "(case Erase tr i v w of
      Ok r (v', w') \<Rightarrow>
        elements v' = take i (elements v) @ drop (Suc i) (elements v) \<and>
        Size v' = Size v - 1 \<and> Capacity v' = Capacity v \<and> r = i \<and> vector_inv v'
    | Thrown s \<Rightarrow> False
    | Abort r \<Rightarrow> r = Terminate \<and> \<not> no_faults w \<and> \<not> is_nothrow_move_assignable tr) \<and>
   Erase tr (Size v - 1) v w =
     (case PopBack v w of
        Ok r s \<Rightarrow> Ok (Size v - 1) s | Thrown s \<Rightarrow> Thrown s | Abort r \<Rightarrow> Abort r) \<and>
   (\<exists>v' w'. PopBack v w = Ok () (v', w') \<and> elements v' = butlast (elements v) \<and>
      Size v' = Size v - 1 \<and> Capacity v' = Capacity v \<and> vector_inv v')"
proof (intro conjI)
  from assms have i: "i < size' v" by (simp add: Size_def)
  from assms(1) have len: "length (elements v) = size' v" by (rule vector_inv_vec(2))
  from assms(1) have le: "size' v \<le> capacity' (data' v)" by (simp add: vector_inv_def)
  from Erase_result [OF assms(1) i, where tr = tr and w = w] i len le
  show "case Erase tr i v w of
      Ok r (v', w') \<Rightarrow>
        elements v' = take i (elements v) @ drop (Suc i) (elements v) \<and>
        Size v' = Size v - 1 \<and> Capacity v' = Capacity v \<and> r = i \<and> vector_inv v'
    | Thrown s \<Rightarrow> False
    | Abort r \<Rightarrow> r = Terminate \<and> \<not> no_faults w \<and> \<not> is_nothrow_move_assignable tr"
    by (auto simp: Size_def Capacity_def split: outcome.splits)
  show "Erase tr (Size v - 1) v w =
     (case PopBack v w of
        Ok r s \<Rightarrow> Ok (Size v - 1) s | Thrown s \<Rightarrow> Thrown s | Abort r \<Rightarrow> Abort r)"
    unfolding Size_def by (rule Erase_last)
  from assms(1) obtain xs k where v: "v = vec xs k" by (rule vector_inv_cases)
  with i obtain ys z where xs: "xs = ys @ [z]" by (cases xs rule: rev_cases) auto
  with v PopBack_eq [where ys = ys and z = z and k = k and w = w]
  show "\<exists>v' w'. PopBack v w = Ok () (v', w') \<and> elements v' = butlast (elements v) \<and>
      Size v' = Size v - 1 \<and> Capacity v' = Capacity v \<and> vector_inv v'"
    by (auto simp: Size_def Capacity_def)
qed

theorem Erase_at_index_witness:
  "vector_inv (vec [10, 20, 30, 40 :: nat] 0) \<and> 1 < Size (vec [10, 20, 30, 40 :: nat] 0) \<and>
   (case Erase copied_nat 1 (vec [10, 20, 30, 40] 0) quiet_world of
      Ok r (v', w') \<Rightarrow> elements v' = [10, 30, 40] \<and> Size v' = 3 \<and> r = 1
    | Thrown s \<Rightarrow> False
    | Abort r \<Rightarrow> False)"
  using Erase_at_index [where v = "vec [10, 20, 30, 40 :: nat] 0" and i = 1 and tr = copied_nat
      and w = quiet_world]
  by (auto simp: Size_def no_faults_def quiet_world_def split: outcome.splits)

text \<open>
  C7: the copy assignment \<^verbatim>\<open>v = rhs\<close> between two distinct well-formed vectors does
  not abort. When it returns, \<open>v\<close> has the size and the elements of \<open>rhs\<close>, and every other
  object of the store, \<open>rhs\<close> among them, is as before. When the size of \<open>rhs\<close> was at most
  the capacity of \<open>v\<close>, the capacity of \<open>v\<close> is unchanged and the run only assigned, copy
  constructed and destroyed elements: no storage was allocated or released. Otherwise
  storage for exactly the size of \<open>rhs\<close> was allocated and is now the storage of \<open>v\<close>. The
  call returns when nothing throws.
\<close>

theorem copy_assign_distinct:
  assumes "this \<noteq> rhs" and "vector_inv (st this)" and "vector_inv (st rhs)"
  shows "case Vector_copy_assign this rhs st w of
      Ok r (st', w') \<Rightarrow>
        Size (st' this) = Size (st rhs) \<and>
        elements (st' this) = elements (st rhs) \<and>
        (\<forall>i < Size (st rhs). Vector_at (st' this) i = Vector_at (st rhs) i) \<and>
        st' rhs = st rhs \<and> (\<forall>p. p \<noteq> this \<longrightarrow> st' p = st p) \<and>
        vector_inv (st' this) \<and>
        (if Size (st rhs) \<le> Capacity (st this)
         then Capacity (st' this) = Capacity (st this) \<and>
           (\<exists>ops. trace w' = trace w @ ops \<and> set ops \<subseteq> {CopyAssign, CopyCtor, Dtor})
         else Capacity (st' this) = Size (st rhs) \<and>
           (\<exists>ops. trace w' = trace w @ New (Size (st rhs)) # ops))
    | Thrown s \<Rightarrow> \<not> no_faults w
    | Abort r \<Rightarrow> False"
proof -
  from assms(3) obtain rs kr where r: "st rhs = vec rs kr" by (rule vector_inv_cases)
  from assms(2) have le: "size' (st this) \<le> capacity' (data' (st this))"
    by (simp add: vector_inv_def)
  note body = copy_assign_body_result [OF assms(2,3), of w]
  show ?thesis
  proof (cases "Vector_copy_assign_body (st this) (st rhs) w")
    case (Abort e)
    with body show ?thesis by simp
  next
    case (Thrown s)
    with body assms(1) show ?thesis
      by (cases s) (simp add: Vector_copy_assign_def)
  next
    case (Ok u s)
    obtain v' w' where s: "s = (v', w')" by (cases s)
    from Ok s assms(1) have res: "Vector_copy_assign this rhs st w = Ok () (st(this := v'), w')"
      by (simp add: Vector_copy_assign_def)
    show ?thesis
    proof (cases "size' (st rhs) \<le> capacity' (data' (st this))")
      case True
      with body Ok s have v': "v' = vec rs (capacity' (data' (st this)) - length rs)"
        and ops: "\<exists>ops. trace w' = trace w @ ops \<and> set ops \<subseteq> {CopyAssign, CopyCtor, Dtor}"
        using r by simp_all
      from True r have "length rs \<le> capacity' (data' (st this))" by simp
      with v' ops True r assms(1) show ?thesis
        unfolding res by (simp add: Size_def Capacity_def Vector_at_vec)
    next
      case False
      with body Ok s have v': "v' = vec rs 0"
        and ops: "\<exists>ops. trace w' = trace w @ New (size' (st rhs)) # ops"
        using r by simp_all
      with False r assms(1) show ?thesis
        unfolding res by (simp add: Size_def Capacity_def Vector_at_vec)
    qed
  qed
qed

theorem copy_assign_distinct_witness:
  "(0 :: nat) \<noteq> 1 \<and> vector_inv (two_vectors 0) \<and> vector_inv (two_vectors 1) \<and>
   (case Vector_copy_assign 0 1 two_vectors quiet_world of
      Ok r (st', w') \<Rightarrow>
        elements (st' 0) = [7, 8, 9] \<and> Capacity (st' 0) = 5 \<and> st' 1 = two_vectors 1
    | Thrown s \<Rightarrow> False
    | Abort r \<Rightarrow> False)"
proof -
  have a: "(0 :: nat) \<noteq> 1" by simp
  have b: "vector_inv (two_vectors 0)" "vector_inv (two_vectors 1)"
    by (simp_all add: two_vectors_def)
  have e: "elements (two_vectors 1) = [7, 8, 9]" "Size (two_vectors 1) = 3"
    "Capacity (two_vectors 0) = 5" "no_faults quiet_world"
    by (simp_all add: two_vectors_def Size_def Capacity_def no_faults_def quiet_world_def)
  from copy_assign_distinct [OF a b, of quiet_world] a b e show ?thesis
    by (simp split: outcome.splits prod.splits)
qed





text \<open>
  C10: the copy assignment of a vector to itself returns at once: every object of the
  store, with its size, capacity and elements, and the state of the run are as before,
  so no element was assigned, constructed or destroyed and no storage was touched.
\<close>

theorem Vector_copy_assign_self:
  "Vector_copy_assign p p st w = Ok () (st, w)"
  by (simp add: Vector_copy_assign_def)

end
